theory Spec2Isabelle
  imports Main "HOL-Library.AList"
begin

section \<open>JavaScript values shared by the components\<close>

text \<open>
  A JavaScript \<open>Map\<close> keeps its keys in insertion order: \<open>Map.set\<close> replaces the value
  of a key that is present where it stands and appends a new key at the end,
  \<open>Map.delete\<close> removes the key. An association list with distinct keys under
  \<open>AList.update\<close>, \<open>AList.delete\<close> and \<open>map_of\<close> is exactly that; \<open>Map.size\<close> is the
  length of the list.

  Time is the integer number of milliseconds that \<open>Date.now()\<close> returns.
\<close>

datatype js_error = Error string | TypeError string

text \<open>What a \<open>catch\<close> clause can receive: an \<open>Error\<close> object or any other thrown value
  (given by its \<open>String(...)\<close> rendering).\<close>

datatype thrown = ThrownError js_error | ThrownOther string

text \<open>\<open>error instanceof Error ? error : new Error(String(error))\<close>\<close>

fun toError :: "thrown \<Rightarrow> js_error" where
  "toError (ThrownError e) = e"
| "toError (ThrownOther s) = Error s"

section \<open>ResultCache: \<open>LruCache\<close> of the fetch-pool adapter\<close>

record 'a CacheEntry =
  data :: 'a
  timestamp :: int
  etag :: "string option"
  lastModified :: "string option"

record 'a LruCache =
  entries :: "(string \<times> 'a CacheEntry) list"
  maxSize :: int
  ttl :: int

text \<open>\<open>get(key)\<close>: a missing key is absent; an entry older than the time-to-live is
  deleted and absent; otherwise the entry is returned and the table is untouched.\<close>

definition LruCache_get ::
  "int \<Rightarrow> string \<Rightarrow> 'a LruCache \<Rightarrow> 'a CacheEntry option \<times> 'a LruCache" where
  "LruCache_get now key c =
     (case map_of (entries c) key of
        None \<Rightarrow> (None, c)
      | Some entry \<Rightarrow>
          if now - timestamp entry > ttl c
          then (None, c\<lparr>entries := AList.delete key (entries c)\<rparr>)
          else (Some entry, c))"

definition LruCache_getStale :: "string \<Rightarrow> 'a LruCache \<Rightarrow> 'a CacheEntry option" where
  "LruCache_getStale key c = map_of (entries c) key"

definition LruCache_clear :: "'a LruCache \<Rightarrow> 'a LruCache" where
  "LruCache_clear c = c\<lparr>entries := []\<rparr>"

text \<open>
  \<open>evict()\<close>: the entries are sorted by timestamp (\<open>Array.prototype.sort\<close> is stable, as
  \<open>sort_key\<close> is), and the first \<open>count\<close> of them are deleted one by one.
  \<open>Math.floor(maxSize * 0.1)\<close> is taken as \<open>maxSize div 10\<close>: the double nearest to one
  tenth lies just above it, so for a capacity of any practical size the product lies
  between the exact tenth and the next integer; for a capacity below ten, negative ones
  included, \<open>Math.max\<close> makes the count one either way.
  \<open>sorted[i]![0]\<close> reads a property of \<open>undefined\<close> once \<open>i\<close> passes the end of the
  array: a \<open>TypeError\<close>, raised after the deletions made so far.
\<close>

definition evict_count :: "'a LruCache \<Rightarrow> nat" where
  "evict_count c = nat (max 1 (maxSize c div 10))"

function evict_loop ::
  "(string \<times> 'a CacheEntry) list \<Rightarrow> nat \<Rightarrow> nat \<Rightarrow> 'a LruCache \<Rightarrow> js_error option \<times> 'a LruCache"
  where
  "evict_loop sortedEntries i count c =
     (if i < count then
        (if i < length sortedEntries
         then evict_loop sortedEntries (i + 1) count
                (c\<lparr>entries := AList.delete (fst (sortedEntries ! i)) (entries c)\<rparr>)
         else (Some (TypeError ''Cannot read properties of undefined''), c))
      else (None, c))"
  by pat_completeness auto
termination
  by (relation "measure (\<lambda>(sortedEntries, i, count, c). count - i)") auto

declare evict_loop.simps [simp del]

definition LruCache_evict :: "'a LruCache \<Rightarrow> js_error option \<times> 'a LruCache" where
  "LruCache_evict c =
     evict_loop (sort_key (\<lambda>p. timestamp (snd p)) (entries c)) 0 (evict_count c) c"

text \<open>\<open>set(key, entry)\<close>: evict first when the table is at capacity; an exception of
  \<open>evict\<close> leaves \<open>set\<close> before the entry is stored.\<close>

definition LruCache_set ::
  "string \<Rightarrow> 'a CacheEntry \<Rightarrow> 'a LruCache \<Rightarrow> js_error option \<times> 'a LruCache" where
  "LruCache_set key entry c =
     (if int (length (entries c)) \<ge> maxSize c then
        (case LruCache_evict c of
           (Some err, c') \<Rightarrow> (Some err, c')
         | (None, c') \<Rightarrow> (None, c'\<lparr>entries := AList.update key entry (entries c')\<rparr>))
      else (None, c\<lparr>entries := AList.update key entry (entries c)\<rparr>))"

section \<open>Browser-rendered backend: \<open>PlaywrightScraperAdapter\<close>\<close>

subsection \<open>Its own \<open>LRUCache\<close>\<close>

record 'a LRUEntry =
  entry_data :: 'a
  entry_timestamp :: int

record 'a LRUCache =
  lru_cache :: "(string \<times> 'a LRUEntry) list"
  lru_maxSize :: int
  lru_ttl :: int

text \<open>\<open>get(key)\<close>: a hit deletes the entry and stores it again, which moves it to the
  end of the \<open>Map\<close>.\<close>

definition LRUCache_get :: "int \<Rightarrow> string \<Rightarrow> 'a LRUCache \<Rightarrow> 'a option \<times> 'a LRUCache" where
  "LRUCache_get now key c =
     (case map_of (lru_cache c) key of
        None \<Rightarrow> (None, c)
      | Some entry \<Rightarrow>
          if now - entry_timestamp entry > lru_ttl c
          then (None, c\<lparr>lru_cache := AList.delete key (lru_cache c)\<rparr>)
          else (Some (entry_data entry),
                c\<lparr>lru_cache := AList.update key entry (AList.delete key (lru_cache c))\<rparr>))"

text \<open>\<open>set(key, data)\<close>: at capacity the first key of the \<open>Map\<close> is deleted, unless the
  \<open>Map\<close> is empty or that key is the empty string (\<open>if (firstKey)\<close>); the entry is
  stamped with the current time.\<close>

definition LRUCache_set :: "int \<Rightarrow> string \<Rightarrow> 'a \<Rightarrow> 'a LRUCache \<Rightarrow> 'a LRUCache" where
  "LRUCache_set now key d c =
     (let m = (if int (length (lru_cache c)) \<ge> lru_maxSize c then
                 (case lru_cache c of
                    [] \<Rightarrow> []
                  | (firstKey, _) # _ \<Rightarrow>
                      if firstKey \<noteq> [] then AList.delete firstKey (lru_cache c)
                      else lru_cache c)
               else lru_cache c)
      in c\<lparr>lru_cache := AList.update key \<lparr>entry_data = d, entry_timestamp = now\<rparr> m\<rparr>)"

definition LRUCache_clear :: "'a LRUCache \<Rightarrow> 'a LRUCache" where
  "LRUCache_clear c = c\<lparr>lru_cache := []\<rparr>"

subsection \<open>Requests, results and the environment\<close>

text \<open>Options are \<open>Partial\<close>: a field that is not given is \<open>None\<close> and takes the default of
  the destructuring pattern. Links, media and metadata are the payloads of the external
  extractors, kept as the extractors return them.\<close>

record ScrapeOptions =
  timeout :: "int option"
  waitFor :: "string option"
  waitForSelector :: "string option"
  extractMedia :: "bool option"
  extractLinks :: "bool option"
  extractMetadata :: "bool option"
  cache :: "bool option"
  jsCode :: "string option"

record BatchScrapeOptions = ScrapeOptions +
  concurrency :: "int option"
  retries :: "int option"
  retryDelay :: "int option"

record ScrapeResult =
  url :: string
  title :: string
  content :: string
  markdown :: string
  html :: string
  statusCode :: "int option"
  contentType :: "string option"
  loadTime :: int
  links :: "string list option"
  media :: "string list option"
  metadata :: "(string \<times> string) list option"

record ScrapeResponse =
  result :: ScrapeResult
  cached :: bool
  duration :: int
  source :: string

record BatchScrapeResult =
  results :: "(string \<times> ScrapeResult) list"
  failed :: "(string \<times> js_error) list"
  totalDuration :: int

text \<open>What the browser hands back when the \<open>try\<close> block of \<open>scrape\<close> gets through:
  \<open>page.url()\<close>, \<open>page.title()\<close>, \<open>page.content()\<close>, \<open>response?.status()\<close> and the
  \<open>content-type\<close> header.\<close>

record RawPage =
  page_url :: string
  page_title :: string
  page_content :: string
  response_status :: "int option"
  response_contentType :: "string option"

text \<open>
  Everything outside the adapter is the environment, over an abstract world \<open>'w\<close>:
  the clock (\<open>Date.now()\<close>), the cancellation signal (\<open>signal?.aborted\<close>; no signal
  reads \<open>False\<close>), the browser work of the \<open>try\<close> block (\<open>createContext\<close>,
  \<open>newPage\<close>, \<open>addInitScript\<close>, \<open>goto\<close>, \<open>waitForSelector\<close>, \<open>evaluate\<close>, \<open>content\<close>,
  \<open>title\<close>: it fails with what it throws, or returns the raw page), the \<open>finally\<close>
  block (\<open>page.close()\<close>, \<open>context.close()\<close>, which may throw as well), the timers and
  random draws of \<open>utils/stealth\<close>, and the content parsers. Each of them may change the
  world, the signal included. Progress callbacks are observers and are not modelled.

  Several \<open>async\<close> calls may be waiting at once, each for an operation of its own
  (browser work, a \<open>finally\<close> block, a timer). Which of these operations completes first
  is for the environment to say: \<open>completesFirst w ks\<close> names one of the waiting calls
  \<open>ks\<close> (their positions in the window), and no order is excluded.
\<close>

record 'w env =
  now :: "'w \<Rightarrow> int"
  aborted :: "'w \<Rightarrow> bool"
  browse :: "string \<Rightarrow> ScrapeOptions \<Rightarrow> 'w \<Rightarrow> (thrown + RawPage) \<times> 'w"
  teardown :: "'w \<Rightarrow> thrown option \<times> 'w"
  sleep :: "int \<Rightarrow> 'w \<Rightarrow> 'w"
  completesFirst :: "'w \<Rightarrow> nat list \<Rightarrow> nat"
  getRandomDelay :: "int \<Rightarrow> int \<Rightarrow> 'w \<Rightarrow> int"
  jitter :: "'w \<Rightarrow> int"
  htmlToText :: "string \<Rightarrow> string"
  htmlToMarkdown :: "string \<Rightarrow> string"
  extractLinksFn :: "string \<Rightarrow> string \<Rightarrow> string list"
  extractMediaFn :: "string \<Rightarrow> string \<Rightarrow> string list"
  extractMetadataFn :: "string \<Rightarrow> (string \<times> string) list"

text \<open>The adapter: its cache, and a record of the backend calls made (the target of each
  entry into the \<open>try\<close> block), kept for the properties that count them.\<close>

record PlaywrightScraperAdapter =
  adapter_cache :: "ScrapeResult LRUCache"
  backendCalls :: "string list"

subsection \<open>\<open>scrape\<close>\<close>

definition orDefault :: "'a option \<Rightarrow> 'a \<Rightarrow> 'a" where
  "orDefault v d = (case v of None \<Rightarrow> d | Some x \<Rightarrow> x)"

text \<open>\<open>`${url}|${jsCode || ""}|${waitForSelector || ""}`\<close>\<close>

definition cacheKey :: "string \<Rightarrow> ScrapeOptions \<Rightarrow> string" where
  "cacheKey u opts = u @ ''|'' @ orDefault (jsCode opts) [] @ ''|'' @ orDefault (waitForSelector opts) []"

definition buildResult :: "'w env \<Rightarrow> string \<Rightarrow> ScrapeOptions \<Rightarrow> RawPage \<Rightarrow> int \<Rightarrow> ScrapeResult" where
  "buildResult env u opts raw elapsed =
     \<lparr>url = page_url raw,
      title = page_title raw,
      content = htmlToText env (page_content raw),
      markdown = htmlToMarkdown env (page_content raw),
      html = page_content raw,
      statusCode = response_status raw,
      contentType = response_contentType raw,
      loadTime = elapsed,
      links = (if orDefault (extractLinks opts) True
               then Some (extractLinksFn env (page_content raw) u) else None),
      media = (if orDefault (extractMedia opts) True
               then Some (extractMediaFn env (page_content raw) u) else None),
      metadata = (if orDefault (extractMetadata opts) True
                  then Some (extractMetadataFn env (page_content raw)) else None)\<rparr>"

text \<open>
  \<open>scrape(url, options)\<close> is \<open>async\<close>: called, it runs without interruption up to its
  first \<open>await\<close> and goes on when the awaited browser work is done. A thrown value is
  the left summand.

  The part before the first \<open>await\<close>: the cache lookup and the check of the signal
  settle the call at once; otherwise the call enters the \<open>try\<close> block, where the
  browser work is under way (a backend call is made).
\<close>

datatype scrape_start = Settled "thrown + ScrapeResponse" | InFlight int

definition scrape_begin ::
  "'w env \<Rightarrow> string \<Rightarrow> ScrapeOptions \<Rightarrow> 'w \<Rightarrow> PlaywrightScraperAdapter \<Rightarrow>
     scrape_start \<times> PlaywrightScraperAdapter" where
  "scrape_begin env u opts w a =
     (let useCache = orDefault (cache opts) True;
          startTime = now env w;
          key = cacheKey u opts;
          lookup = (if useCache then LRUCache_get (now env w) key (adapter_cache a)
                    else (None, adapter_cache a));
          a1 = a\<lparr>adapter_cache := snd lookup\<rparr>
      in (case fst lookup of
            Some hit \<Rightarrow>
              (Settled (Inr \<lparr>result = hit, cached = True, duration = now env w - startTime,
                             source = ''playwright''\<rparr>), a1)
          | None \<Rightarrow>
              if aborted env w then (Settled (Inl (ThrownError (Error ''Scrape aborted''))), a1)
              else (InFlight startTime, a1\<lparr>backendCalls := backendCalls a1 @ [u]\<rparr>)))"

text \<open>
  The rest of the \<open>try\<close> block, once the browser work is done: an exception of the
  browser work leaves the block; otherwise the result is built, the cache written and
  the value of the \<open>return\<close> computed. Either way \<open>finally\<close> comes next, and its
  \<open>await\<close>s suspend the call once more. The signal is not read again.
\<close>

definition scrape_extract ::
  "'w env \<Rightarrow> string \<Rightarrow> ScrapeOptions \<Rightarrow> int \<Rightarrow> 'w \<times> PlaywrightScraperAdapter \<Rightarrow>
     (thrown + ScrapeResponse) \<times> 'w \<times> PlaywrightScraperAdapter" where
  "scrape_extract env u opts startTime st =
     (let w = fst st; a = snd st;
          useCache = orDefault (cache opts) True;
          key = cacheKey u opts;
          outcome = fst (browse env u opts w); w1 = snd (browse env u opts w)
      in (case outcome of
            Inl t \<Rightarrow> (Inl t, w1, a)
          | Inr raw \<Rightarrow>
              (let res = buildResult env u opts raw (now env w1 - startTime);
                   a3 = (if useCache
                         then a\<lparr>adapter_cache :=
                                LRUCache_set (now env w1) key res (adapter_cache a)\<rparr>
                         else a);
                   response = \<lparr>result = res, cached = False,
                               duration = now env w1 - startTime,
                               source = ''playwright''\<rparr>
               in (Inr response, w1, a3))))"

text \<open>The \<open>finally\<close> block, once the page and the context are closed: the call settles
  with the outcome of the \<open>try\<close> block, unless \<open>finally\<close> threw, which replaces it.\<close>

definition scrape_cleanup ::
  "'w env \<Rightarrow> thrown + ScrapeResponse \<Rightarrow> 'w \<Rightarrow> (thrown + ScrapeResponse) \<times> 'w" where
  "scrape_cleanup env outcome w =
     (case fst (teardown env w) of
        None \<Rightarrow> (outcome, snd (teardown env w))
      | Some t' \<Rightarrow> (Inl t', snd (teardown env w)))"

text \<open>Both, for a call that nothing else runs in between of.\<close>

definition scrape_finish ::
  "'w env \<Rightarrow> string \<Rightarrow> ScrapeOptions \<Rightarrow> int \<Rightarrow> 'w \<times> PlaywrightScraperAdapter \<Rightarrow>
     (thrown + ScrapeResponse) \<times> 'w \<times> PlaywrightScraperAdapter" where
  "scrape_finish env u opts startTime st =
     (case scrape_extract env u opts startTime st of
        (outcome, w1, a1) \<Rightarrow>
          (case scrape_cleanup env outcome w1 of (settled, w2) \<Rightarrow> (settled, w2, a1)))"

text \<open>\<open>await\<close> of a call of \<open>scrape\<close> that has been started.\<close>

definition scrape_await ::
  "'w env \<Rightarrow> string \<Rightarrow> ScrapeOptions \<Rightarrow> scrape_start \<Rightarrow> 'w \<times> PlaywrightScraperAdapter \<Rightarrow>
     (thrown + ScrapeResponse) \<times> 'w \<times> PlaywrightScraperAdapter" where
  "scrape_await env u opts started st =
     (case started of
        Settled outcome \<Rightarrow> (outcome, fst st, snd st)
      | InFlight startTime \<Rightarrow> scrape_finish env u opts startTime st)"

text \<open>A call of \<open>scrape\<close> that is awaited with nothing else running in between.\<close>

definition scrape ::
  "'w env \<Rightarrow> string \<Rightarrow> ScrapeOptions \<Rightarrow> 'w \<times> PlaywrightScraperAdapter \<Rightarrow>
     (thrown + ScrapeResponse) \<times> 'w \<times> PlaywrightScraperAdapter" where
  "scrape env u opts st =
     scrape_await env u opts (fst (scrape_begin env u opts (fst st) (snd st)))
       (fst st, snd (scrape_begin env u opts (fst st) (snd st)))"

subsection \<open>\<open>scrapeMany\<close>\<close>

text \<open>\<open>Array.prototype.slice(start, end)\<close>: a negative index counts from the end of the
  array, and both bounds are clamped to it.\<close>

definition js_slice :: "'a list \<Rightarrow> int \<Rightarrow> int \<Rightarrow> 'a list" where
  "js_slice xs start fin =
     (let len = int (length xs);
          k = (if start < 0 then max (len + start) 0 else min start len);
          final = (if fin < 0 then max (len + fin) 0 else min fin len)
      in take (nat (final - k)) (drop (nat k) xs))"

text \<open>
  The body of \<open>batch.map(async (url) => ...)\<close> for one target is the retry loop
  \<open>for (attempt = 0; attempt <= retries; attempt++)\<close>: a successful attempt stores the
  result and returns; a failed one is caught, becomes \<open>lastError\<close>, and is followed by
  a sleep when attempts remain; after the loop \<open>lastError\<close>, if set, goes to the failure
  map. The body is \<open>async\<close>: it runs until it reaches an \<open>await\<close> and goes on when
  the awaited operation completes, and the members of a window are suspended and
  resumed independently of one another. A member is, at any moment,
  \<^item> awaiting the call of \<open>scrape\<close> of its attempt, which has settled at once or has
    its browser work under way,
  \<^item> inside that call, awaiting its \<open>finally\<close> block, with the outcome of \<open>try\<close>,
  \<^item> awaiting the sleep that follows a failed attempt, with \<open>lastError\<close>, or
  \<^item> returned.

  The state the members share carries the world, the adapter, the two maps of the batch
  and the list of the attempts made so far (the target and the outcome of each call of
  \<open>scrape\<close>, in the order in which the calls settle).
\<close>

datatype member =
  Attempting int scrape_start
| Closing int "thrown + ScrapeResponse"
| Sleeping int js_error
| Returned

type_synonym 'w batch_state =
  "'w \<times> PlaywrightScraperAdapter \<times> (string \<times> ScrapeResult) list \<times> (string \<times> js_error) list
     \<times> (string \<times> (thrown + ScrapeResponse)) list"

text \<open>The head of the loop: the test \<open>attempt <= retries\<close>, then the call of \<open>scrape\<close>,
  which runs up to its first \<open>await\<close>; or the end of the loop and
  \<open>if (lastError) failed.set(url, lastError)\<close>.\<close>

definition member_attempt ::
  "'w env \<Rightarrow> ScrapeOptions \<Rightarrow> int \<Rightarrow> string \<Rightarrow> int \<Rightarrow> js_error option \<Rightarrow> 'w batch_state \<Rightarrow>
     member \<times> 'w batch_state" where
  "member_attempt env scrapeOptions nretries u attempt lastError st =
     (case st of (w, a, res, fl, att) \<Rightarrow>
        (if attempt \<le> nretries then
           (case scrape_begin env u scrapeOptions w a of
              (started, a1) \<Rightarrow> (Attempting attempt started, (w, a1, res, fl, att)))
         else
           (Returned,
            (case lastError of
               Some e \<Rightarrow> (w, a, res, AList.update u e fl, att)
             | None \<Rightarrow> (w, a, res, fl, att)))))"

text \<open>What follows \<open>await this.scrape(...)\<close> once the call has settled:
  \<open>results.set(url, response.result); return\<close>, or the \<open>catch\<close> block, which sleeps when
  \<open>attempt < retries\<close> and otherwise goes straight to the next turn of the loop.\<close>

definition member_settled ::
  "'w env \<Rightarrow> ScrapeOptions \<Rightarrow> int \<Rightarrow> string \<Rightarrow> int \<Rightarrow> thrown + ScrapeResponse \<Rightarrow> 'w batch_state \<Rightarrow>
     member \<times> 'w batch_state" where
  "member_settled env scrapeOptions nretries u attempt outcome st =
     (case st of (w, a, res, fl, att) \<Rightarrow>
        (case outcome of
           Inr response \<Rightarrow>
             (Returned, (w, a, AList.update u (result response) res, fl, att @ [(u, Inr response)]))
         | Inl t \<Rightarrow>
             (if attempt < nretries
              then (Sleeping attempt (toError t), (w, a, res, fl, att @ [(u, Inl t)]))
              else member_attempt env scrapeOptions nretries u (attempt + 1) (Some (toError t))
                     (w, a, res, fl, att @ [(u, Inl t)]))))"

text \<open>A member goes on when what it awaits has completed, and runs up to its next
  \<open>await\<close> or to its end.\<close>

definition member_resume ::
  "'w env \<Rightarrow> ScrapeOptions \<Rightarrow> int \<Rightarrow> int \<Rightarrow> string \<Rightarrow> member \<Rightarrow> 'w batch_state \<Rightarrow>
     member \<times> 'w batch_state" where
  "member_resume env scrapeOptions nretries delay u m st =
     (case st of (w, a, res, fl, att) \<Rightarrow>
        (case m of
           Attempting attempt started \<Rightarrow>
             (case started of
                Settled outcome \<Rightarrow> member_settled env scrapeOptions nretries u attempt outcome st
              | InFlight startTime \<Rightarrow>
                  (case scrape_extract env u scrapeOptions startTime (w, a) of
                     (outcome, w1, a1) \<Rightarrow> (Closing attempt outcome, (w1, a1, res, fl, att))))
         | Closing attempt outcome \<Rightarrow>
             (case scrape_cleanup env outcome w of
                (settled, w1) \<Rightarrow>
                  member_settled env scrapeOptions nretries u attempt settled (w1, a, res, fl, att))
         | Sleeping attempt e \<Rightarrow>
             member_attempt env scrapeOptions nretries u (attempt + 1) (Some e)
               (sleep env (delay * (attempt + 1)) w, a, res, fl, att)
         | Returned \<Rightarrow> (Returned, st)))"

text \<open>
  One window: \<open>batch.map(...)\<close> followed by \<open>await Promise.all(promises)\<close>. \<open>map\<close> calls
  the \<open>async\<close> body for every member in turn, and each call runs up to its first
  \<open>await\<close>: with \<open>0 <= retries\<close> that is the call of \<open>scrape\<close> of its first attempt,
  which does its cache lookup and reads the signal in the world the window starts in.
\<close>

fun scrapeMany_start ::
  "'w env \<Rightarrow> ScrapeOptions \<Rightarrow> int \<Rightarrow> string list \<Rightarrow> 'w batch_state \<Rightarrow>
     (string \<times> member) list \<times> 'w batch_state" where
  "scrapeMany_start env scrapeOptions nretries [] st = ([], st)"
| "scrapeMany_start env scrapeOptions nretries (u # us) st =
     (let first = member_attempt env scrapeOptions nretries u 0 None st;
          others = scrapeMany_start env scrapeOptions nretries us (snd first)
      in ((u, fst first) # fst others, snd others))"

text \<open>
  Then the members go on as the event loop resumes them, one at a time, until all have
  returned. A member whose call of \<open>scrape\<close> has settled already has its continuation
  queued as a microtask: such members go first, in the order of the window, before any
  awaited operation completes. Otherwise the member that goes on is the one whose
  operation the environment completes first (the first of the waiting ones, should the
  environment name none of them).
\<close>

definition isReturned :: "member \<Rightarrow> bool" where
  "isReturned m = (case m of Returned \<Rightarrow> True | _ \<Rightarrow> False)"

definition isSettled :: "member \<Rightarrow> bool" where
  "isSettled m = (case m of Attempting attempt (Settled outcome) \<Rightarrow> True | _ \<Rightarrow> False)"

definition waiting :: "(string \<times> member) list \<Rightarrow> nat list" where
  "waiting ms = filter (\<lambda>k. \<not> isReturned (snd (ms ! k))) [0..<length ms]"

definition next_member :: "'w env \<Rightarrow> 'w \<Rightarrow> (string \<times> member) list \<Rightarrow> nat" where
  "next_member env w ms =
     (case filter (\<lambda>k. isSettled (snd (ms ! k))) [0..<length ms] of
        k # ks \<Rightarrow> k
      | [] \<Rightarrow>
          (let k = completesFirst env w (waiting ms)
           in if k \<in> set (waiting ms) then k else hd (waiting ms)))"

text \<open>The steps a member has left at most: three for each attempt it may still make.\<close>

fun stepsLeft :: "int \<Rightarrow> member \<Rightarrow> nat" where
  "stepsLeft nretries (Attempting attempt started) = 3 * nat (nretries - attempt) + 3"
| "stepsLeft nretries (Closing attempt outcome) = 3 * nat (nretries - attempt) + 2"
| "stepsLeft nretries (Sleeping attempt e) = 3 * nat (nretries - attempt) + 1"
| "stepsLeft nretries Returned = 0"

function scrapeMany_settle ::
  "'w env \<Rightarrow> ScrapeOptions \<Rightarrow> int \<Rightarrow> int \<Rightarrow> (string \<times> member) list \<Rightarrow> 'w batch_state \<Rightarrow>
     'w batch_state" where
  "scrapeMany_settle env scrapeOptions nretries delay ms st =
     (if waiting ms = [] then st
      else
        (let k = next_member env (fst st) ms;
             step = member_resume env scrapeOptions nretries delay (fst (ms ! k)) (snd (ms ! k)) st
         in scrapeMany_settle env scrapeOptions nretries delay
              (ms[k := (fst (ms ! k), fst step)]) (snd step)))"
  by pat_completeness auto
termination
proof (relation "measure (\<lambda>(env, so, nretries, delay, ms, st).
                   sum_list (map (\<lambda>p. stepsLeft nretries (snd p)) ms))", goal_cases)
  case 1
  show ?case by simp
next
  case (2 env so nretries delay ms st k step)
  define m where "m = snd (ms ! k)"
  define u where "u = fst (ms ! k)"
  obtain w a res fl att where st: "st = (w, a, res, fl, att)" by (cases st)
  have k_waiting: "k \<in> set (waiting ms)"
  proof (cases "filter (\<lambda>k. isSettled (snd (ms ! k))) [0..<length ms]")
    case Nil
    with 2 show ?thesis
      by (auto simp: next_member_def Let_def intro: hd_in_set)
  next
    case (Cons j js)
    then have "j \<in> set (filter (\<lambda>k. isSettled (snd (ms ! k))) [0..<length ms])" by simp
    then have "j < length ms" and "isSettled (snd (ms ! j))" by auto
    then have "j \<in> set (waiting ms)"
      by (auto simp: waiting_def isSettled_def isReturned_def split: member.splits)
    with 2 Cons show ?thesis by (simp add: next_member_def)
  qed
  then have k: "k < length ms" and busy: "\<not> isReturned m"
    by (auto simp: waiting_def m_def)
  have attempt_less: "stepsLeft nretries (fst (member_attempt env so nretries u (n + 1) le s)) <
      3 * nat (nretries - n) + 1" for n le s
    by (cases s) (auto simp: member_attempt_def split: prod.splits)
  have settled_less: "stepsLeft nretries (fst (member_settled env so nretries u n outcome s)) <
      3 * nat (nretries - n) + 2" for n outcome s
    using attempt_less[of n "Some (toError (projl outcome))"]
    by (cases s; cases outcome)
       (auto simp: member_settled_def less_Suc_eq split: prod.splits)
  have "stepsLeft nretries (fst (member_resume env so nretries delay u m st)) < stepsLeft nretries m"
  proof (cases m)
    case (Attempting n started)
    show ?thesis
    proof (cases started)
      case (Settled outcome)
      with Attempting settled_less[of n outcome st] show ?thesis
        by (simp add: member_resume_def st)
    next
      case (InFlight t0)
      with Attempting show ?thesis
        by (simp add: member_resume_def st split: prod.splits)
    qed
  next
    case (Closing n outcome)
    with settled_less show ?thesis
      by (simp add: member_resume_def st split: prod.splits)
  next
    case (Sleeping n e)
    with attempt_less show ?thesis
      by (simp add: member_resume_def st)
  next
    case Returned
    with busy show ?thesis by (simp add: isReturned_def)
  qed
  then have less: "stepsLeft nretries (fst step) < stepsLeft nretries (snd (ms ! k))"
    using 2 by (simp add: m_def u_def)
  have "sum_list (map (\<lambda>p. stepsLeft nretries (snd p)) (ms[k := (fst (ms ! k), fst step)])) <
        sum_list (map (\<lambda>p. stepsLeft nretries (snd p)) ms)"
  proof -
    have "stepsLeft nretries (snd (ms ! k)) \<in> set (map (\<lambda>p. stepsLeft nretries (snd p)) ms)"
      using k by (auto intro: nth_mem)
    then have "stepsLeft nretries (snd (ms ! k)) \<le> sum_list (map (\<lambda>p. stepsLeft nretries (snd p)) ms)"
      by (rule member_le_sum_list) simp
    with k less show ?thesis by (simp add: map_update sum_list_update)
  qed
  then show ?case by simp
qed

declare scrapeMany_settle.simps [simp del]

definition scrapeMany_batch ::
  "'w env \<Rightarrow> ScrapeOptions \<Rightarrow> int \<Rightarrow> int \<Rightarrow> string list \<Rightarrow> 'w batch_state \<Rightarrow> 'w batch_state"
  where
  "scrapeMany_batch env scrapeOptions nretries delay batch st =
     (let promises = scrapeMany_start env scrapeOptions nretries batch st
      in scrapeMany_settle env scrapeOptions nretries delay (fst promises) (snd promises))"

text \<open>
  The loop over the windows, \<open>for (let i = 0; i < urls.length; i += concurrency)\<close>.
  With a concurrency that is not positive \<open>i\<close> never reaches the length, so the loop
  need not end: the result is an option, \<open>None\<close> when it does not return.
\<close>

partial_function (option) scrapeMany_loop ::
  "'w env \<Rightarrow> ScrapeOptions \<Rightarrow> int \<Rightarrow> int \<Rightarrow> int \<Rightarrow> string list \<Rightarrow> int \<Rightarrow>
     'w batch_state \<Rightarrow> 'w batch_state option" where
  "scrapeMany_loop env scrapeOptions conc nretries delay urls i st =
     (if i < int (length urls) then
        (if aborted env (fst st) then Some st
         else
           (case scrapeMany_batch env scrapeOptions nretries delay
                   (js_slice urls i (i + conc)) st of
              (w1, rest) \<Rightarrow>
                scrapeMany_loop env scrapeOptions conc nretries delay urls (i + conc)
                  (if i + conc < int (length urls)
                   then sleep env (getRandomDelay env 500 1500 w1) w1 else w1, rest)))
      else Some st)"

declare scrapeMany_loop.simps [code]

definition scrapeMany ::
  "'w env \<Rightarrow> string list \<Rightarrow> BatchScrapeOptions \<Rightarrow> 'w \<times> PlaywrightScraperAdapter \<Rightarrow>
     (BatchScrapeResult \<times> (string \<times> (thrown + ScrapeResponse)) list
        \<times> 'w \<times> PlaywrightScraperAdapter) option" where
  "scrapeMany env urls opts st =
     (let w = fst st; a = snd st; startTime = now env w in
      (case scrapeMany_loop env (ScrapeOptions.truncate opts)
              (orDefault (concurrency opts) 3) (orDefault (retries opts) 2)
              (orDefault (retryDelay opts) 1000) urls 0 (w, a, [], [], []) of
         None \<Rightarrow> None
       | Some (w1, a1, res, fl, att) \<Rightarrow>
           Some (\<lparr>results = res, failed = fl, totalDuration = now env w1 - startTime\<rparr>,
                 att, w1, a1)))"

section \<open>\<open>scrapeWithRetry\<close> of the fetch-pool adapter\<close>





section \<open>RemoteDebugClient: \<open>CDPPage\<close>\<close>

text \<open>
  A parsed JSON value (numbers are the integers of the protocol; an object lists its
  properties, each name once). \<open>JSON.parse\<close> itself is a parameter of the handler:
  \<open>None\<close> is its \<open>SyntaxError\<close>.
\<close>

datatype json =
  JNull | JBool bool | JNum int | JStr string | JArr "json list" | JObj "(string \<times> json) list"

text \<open>\<open>"id" in message\<close> throws a \<open>TypeError\<close> unless the right operand is an object;
  an array has no property \<open>id\<close>.\<close>

fun hasProperty :: "string \<Rightarrow> json \<Rightarrow> js_error + bool" where
  "hasProperty k (JObj props) = Inr (k \<in> fst ` set props)"
| "hasProperty k (JArr _) = Inr False"
| "hasProperty k _ = Inl (TypeError ''Cannot use in operator'')"

text \<open>Reading a property: \<open>undefined\<close> (\<open>None\<close>) when it is missing, and on a primitive.\<close>

fun getProperty :: "string \<Rightarrow> json \<Rightarrow> json option" where
  "getProperty k (JObj props) = map_of props k"
| "getProperty k _ = None"

fun truthy :: "json option \<Rightarrow> bool" where
  "truthy None = False"
| "truthy (Some JNull) = False"
| "truthy (Some (JBool b)) = b"
| "truthy (Some (JNum n)) = (n \<noteq> 0)"
| "truthy (Some (JStr s)) = (s \<noteq> [])"
| "truthy (Some (JArr _)) = True"
| "truthy (Some (JObj _)) = True"

text \<open>
  A pending command holds the two continuations of the promise that \<open>send\<close> returned;
  the promise is named by the id of its command. A promise is settled once:
  \<open>settlements\<close> lists the promises settled so far, each with its outcome (the value of
  \<open>message.result\<close>, or the \<open>message.error.message\<close> the \<open>Error\<close> is built from), and
  a promise that is not listed is still pending. \<open>sentFrames\<close> lists what was handed
  to \<open>ws.send\<close>.
\<close>

datatype continuation = Continuation int

datatype settlement = Resolved "json option" | Rejected "json option" | RejectedWith thrown

datatype wsocket = WebSocket string

record CDPPage =
  ws :: "wsocket option"
  messageId :: int
  pendingCommands :: "(int \<times> continuation) list"
  settlements :: "(int \<times> settlement) list"
  sentFrames :: "(int \<times> string \<times> json option) list"

definition settle :: "continuation \<Rightarrow> settlement \<Rightarrow> CDPPage \<Rightarrow> CDPPage" where
  "settle k outcome p =
     (case k of Continuation n \<Rightarrow>
        if n \<in> fst ` set (settlements p) then p
        else p\<lparr>settlements := settlements p @ [(n, outcome)]\<rparr>)"

text \<open>\<open>this.pendingCommands.get(message.id)\<close>: the keys are numbers, so only a number
  can find one.\<close>

definition lookupPending :: "json option \<Rightarrow> CDPPage \<Rightarrow> (int \<times> continuation) option" where
  "lookupPending idv p =
     (case idv of
        Some (JNum n) \<Rightarrow> map_option (Pair n) (map_of (pendingCommands p) n)
      | _ \<Rightarrow> None)"

definition handleMessage ::
  "(string \<Rightarrow> json option) \<Rightarrow> string \<Rightarrow> CDPPage \<Rightarrow> js_error option \<times> CDPPage" where
  "handleMessage JSON_parse d p =
     (case JSON_parse d of
        None \<Rightarrow> (Some (Error ''SyntaxError''), p)
      | Some message \<Rightarrow>
          (case hasProperty ''id'' message of
             Inl e \<Rightarrow> (Some e, p)
           | Inr False \<Rightarrow> (None, p)
           | Inr True \<Rightarrow>
               (case lookupPending (getProperty ''id'' message) p of
                  None \<Rightarrow> (None, p)
                | Some (n, pending) \<Rightarrow>
                    let p1 = p\<lparr>pendingCommands := AList.delete n (pendingCommands p)\<rparr> in
                    if truthy (getProperty ''error'' message)
                    then (None, settle pending
                            (Rejected (case getProperty ''error'' message of
                                         None \<Rightarrow> None
                                       | Some e \<Rightarrow> getProperty ''message'' e)) p1)
                    else (None, settle pending (Resolved (getProperty ''result'' message)) p1))))"

text \<open>
  \<open>send(method, params)\<close>: an \<open>async\<close> function, so its exception is a rejected promise
  (\<open>Inl\<close>); otherwise it returns the promise of the new command (\<open>Inr\<close> its id). The
  executor of the promise runs at once: it stores the continuations and calls
  \<open>ws.send\<close>, whose exception (a parameter: what the socket throws for this frame)
  rejects the promise and leaves the stored entry behind.
\<close>

definition send ::
  "(int \<times> string \<times> json option \<Rightarrow> thrown option) \<Rightarrow> string \<Rightarrow> json option \<Rightarrow> CDPPage \<Rightarrow>
     (js_error + int) \<times> CDPPage" where
  "send wsSend method params p =
     (if ws p = None then (Inl (Error ''Page not connected''), p)
      else
        let n = messageId p + 1;
            p1 = p\<lparr>messageId := n,
                   pendingCommands := AList.update n (Continuation n) (pendingCommands p)\<rparr>
        in case wsSend (n, method, params) of
             None \<Rightarrow> (Inr n, p1\<lparr>sentFrames := sentFrames p1 @ [(n, method, params)]\<rparr>)
           | Some t \<Rightarrow> (Inr n, settle (Continuation n) (RejectedWith t) p1))"

text \<open>\<open>close()\<close>: drops the socket, then awaits \<open>client.closePage\<close>, whose exception (a
  parameter) is the exception of \<open>close\<close>.\<close>

definition close :: "thrown option \<Rightarrow> CDPPage \<Rightarrow> thrown option \<times> CDPPage" where
  "close closePage p = (closePage, if ws p \<noteq> None then p\<lparr>ws := None\<rparr> else p)"

section \<open>SessionManager: \<open>WebActionManager\<close>\<close>

text \<open>
  Browser contexts, pages, cursors and browsers are handles of the automation library
  (numbers). A \<open>WebSession\<close> is a JavaScript object: the manager's \<open>Map\<close> and every
  caller hold references to it, a caller that holds one sees what another writes, and
  two sessions are the same session when they are the same object. The objects
  therefore live in a store, from references (numbers, drawn from the counter
  \<open>allocated\<close> when an object literal is evaluated) to fields, and the \<open>Map\<close> goes from
  identities to references.
\<close>

record WebSession =
  profileId :: string
  browserContext :: nat
  page :: nat
  cursor :: "nat option"
  createdAt :: int
  lastActivity :: int
  cdpBrowser :: "nat option"

record WebActionManager =
  sessions :: "(string \<times> nat) list"
  store :: "nat \<Rightarrow> WebSession"
  allocated :: nat

record SessionOptions =
  headless :: "bool option"
  cdpUrl :: "string option"

text \<open>
  The automation library and the operating system, over an abstract world \<open>'w\<close>:
  \<open>Date.now()\<close>, \<open>page.isClosed()\<close>, \<open>context.newPage()\<close>,
  \<open>chromium.launchPersistentContext\<close> (user data directory, headless flag),
  \<open>applyStealthToContext\<close>, \<open>context.pages()\<close>, \<open>createHumanCursor\<close>, the resolution
  of a debugging URL to a WebSocket URL (it reads the \<open>DevToolsActivePort\<close> files),
  \<open>chromium.connectOverCDP\<close>, \<open>browser.contexts()\<close>, \<open>browser.newContext()\<close>,
  \<open>page.setViewportSize\<close>, and the configured \<open>PROFILES_DIR\<close>.
\<close>

record 'w browser_env =
  dateNow :: "'w \<Rightarrow> int"
  isClosed :: "nat \<Rightarrow> 'w \<Rightarrow> bool"
  newPage :: "nat \<Rightarrow> 'w \<Rightarrow> (thrown + nat) \<times> 'w"
  launchPersistentContext :: "string \<Rightarrow> bool \<Rightarrow> 'w \<Rightarrow> (thrown + nat) \<times> 'w"
  applyStealthToContext :: "nat \<Rightarrow> 'w \<Rightarrow> thrown option \<times> 'w"
  pages :: "nat \<Rightarrow> 'w \<Rightarrow> nat list"
  createHumanCursor :: "nat \<Rightarrow> 'w \<Rightarrow> (thrown + nat) \<times> 'w"
  resolveCdpWebSocketUrl :: "string \<Rightarrow> 'w \<Rightarrow> string"
  connectOverCDP :: "string \<Rightarrow> 'w \<Rightarrow> (thrown + nat) \<times> 'w"
  contexts :: "nat \<Rightarrow> 'w \<Rightarrow> nat list"
  newContext :: "nat \<Rightarrow> 'w \<Rightarrow> (thrown + nat) \<times> 'w"
  setViewportSize :: "nat \<Rightarrow> int \<Rightarrow> int \<Rightarrow> 'w \<Rightarrow> thrown option \<times> 'w"
  PROFILES_DIR :: string

text \<open>
  \<open>join\<close> of \<open>node:path\<close>, as it is on a POSIX host: the segments that are not empty are
  put together with \<open>/\<close> in between, and the path is normalised. Empty segments and \<open>.\<close>
  go, \<open>..\<close> takes the segment before it away (it stays when there is none and the path
  is relative), and a slash at the end is kept.
\<close>

fun splitPath :: "string \<Rightarrow> string list" where
  "splitPath [] = [[]]"
| "splitPath (c # cs) =
     (if c = CHR ''/'' then [] # splitPath cs
      else (case splitPath cs of seg # segs \<Rightarrow> (c # seg) # segs | [] \<Rightarrow> [[c]]))"

fun normalizeSegments :: "bool \<Rightarrow> string list \<Rightarrow> string list \<Rightarrow> string list" where
  "normalizeSegments allowAboveRoot kept [] = rev kept"
| "normalizeSegments allowAboveRoot kept (seg # segs) =
     (if seg = [] \<or> seg = ''.'' then normalizeSegments allowAboveRoot kept segs
      else if seg = ''..'' then
        (case kept of
           k # ks \<Rightarrow>
             (if k = ''..'' then normalizeSegments allowAboveRoot (''..'' # kept) segs
              else normalizeSegments allowAboveRoot ks segs)
         | [] \<Rightarrow>
             (if allowAboveRoot then normalizeSegments allowAboveRoot [''..''] segs
              else normalizeSegments allowAboveRoot [] segs))
      else normalizeSegments allowAboveRoot (seg # kept) segs)"

fun joinWith :: "string \<Rightarrow> string list \<Rightarrow> string" where
  "joinWith sep [] = []"
| "joinWith sep [x] = x"
| "joinWith sep (x # y # ys) = x @ sep @ joinWith sep (y # ys)"

definition path_normalize :: "string \<Rightarrow> string" where
  "path_normalize p =
     (if p = [] then ''.''
      else
        (let isAbsolute = (hd p = CHR ''/'');
             trailingSeparator = (last p = CHR ''/'');
             body = joinWith ''/'' (normalizeSegments (\<not> isAbsolute) [] (splitPath p))
         in if body = [] then (if isAbsolute then ''/'' else if trailingSeparator then ''./'' else ''.'')
            else (if isAbsolute then ''/'' else []) @ body @ (if trailingSeparator then ''/'' else [])))"

definition path_join :: "string list \<Rightarrow> string" where
  "path_join segments =
     (case filter (\<lambda>seg. seg \<noteq> []) segments of
        [] \<Rightarrow> ''.''
      | seg # segs \<Rightarrow> path_normalize (joinWith ''/'' (seg # segs)))"

text \<open>
  \<open>getOrCreateSession\<close> and \<open>connectViaCDP\<close> are \<open>async\<close>: each runs without
  interruption up to its first \<open>await\<close>, where other callers may run, and goes on
  when the awaited operation has completed. The first \<open>await\<close> a call reaches is one of
  three: \<open>existing.context.newPage()\<close> (the session exists and its page is closed),
  \<open>chromium.launchPersistentContext\<close>, or \<open>chromium.connectOverCDP\<close>.
\<close>

datatype suspended =
  AwaitNewPage nat
| AwaitLaunch string bool
| AwaitConnect string

datatype progress = Finished nat | Suspended suspended

text \<open>The check that opens both functions: \<open>const existing = this.sessions.get(profileId);
  if (existing) { existing.lastActivity = Date.now(); ... }\<close>, up to the \<open>await\<close>.\<close>

definition reuseExisting ::
  "'w browser_env \<Rightarrow> string \<Rightarrow> 'w \<Rightarrow> WebActionManager \<Rightarrow> (progress \<times> WebActionManager) option"
  where
  "reuseExisting env pid w m =
     (case map_of (sessions m) pid of
        None \<Rightarrow> None
      | Some existing \<Rightarrow>
          let m1 = m\<lparr>store := (store m)
                     (existing := (store m existing)\<lparr>lastActivity := dateNow env w\<rparr>)\<rparr>
          in if isClosed env (page (store m1 existing)) w
             then Some (Suspended (AwaitNewPage existing), m1)
             else Some (Finished existing, m1))"

definition connectViaCDP_begin ::
  "'w browser_env \<Rightarrow> string \<Rightarrow> string \<Rightarrow> 'w \<Rightarrow> WebActionManager \<Rightarrow> progress \<times> WebActionManager"
  where
  "connectViaCDP_begin env pid cdp w m =
     (case reuseExisting env pid w m of
        Some done \<Rightarrow> done
      | None \<Rightarrow> (Suspended (AwaitConnect (resolveCdpWebSocketUrl env cdp w)), m))"

definition getOrCreateSession_begin ::
  "'w browser_env \<Rightarrow> string \<Rightarrow> SessionOptions option \<Rightarrow> 'w \<Rightarrow> WebActionManager \<Rightarrow>
     progress \<times> WebActionManager" where
  "getOrCreateSession_begin env pid options w m =
     (case reuseExisting env pid w m of
        Some done \<Rightarrow> done
      | None \<Rightarrow>
          (case Option.bind options cdpUrl of
             Some (c # cs) \<Rightarrow> connectViaCDP_begin env pid (c # cs) w m
           | _ \<Rightarrow>
               (Suspended
                  (AwaitLaunch (path_join [PROFILES_DIR env, pid, ''browser-data''])
                     (orDefault (Option.bind options headless) True)), m)))"

text \<open>\<open>context.pages()[0] ?? (await context.newPage())\<close>\<close>

definition firstPageOrNew :: "'w browser_env \<Rightarrow> nat \<Rightarrow> 'w \<Rightarrow> (thrown + nat) \<times> 'w" where
  "firstPageOrNew env ctx w =
     (case pages env ctx w of pg # _ \<Rightarrow> (Inr pg, w) | [] \<Rightarrow> newPage env ctx w)"

text \<open>\<open>try { cursor = await createHumanCursor(page) } catch { ... }\<close>\<close>

definition tryCursor :: "'w browser_env \<Rightarrow> nat \<Rightarrow> 'w \<Rightarrow> nat option \<times> 'w" where
  "tryCursor env pg w =
     (case createHumanCursor env pg w of (Inl _, w1) \<Rightarrow> (None, w1) | (Inr c, w1) \<Rightarrow> (Some c, w1))"

text \<open>The object literal \<open>session\<close> followed by \<open>this.sessions.set(profileId, session)\<close>.\<close>

definition registerSession :: "string \<Rightarrow> WebSession \<Rightarrow> WebActionManager \<Rightarrow> nat \<times> WebActionManager"
  where
  "registerSession pid session m =
     (allocated m,
      m\<lparr>sessions := AList.update pid (allocated m) (sessions m),
        store := (store m)(allocated m := session),
        allocated := allocated m + 1\<rparr>)"

text \<open>
  What a suspended call does once its awaited operation completes, down to its
  \<open>return\<close> or its exception. The later \<open>await\<close>s of the same call are run through
  here without interruption: one of the schedules the event loop allows.
\<close>

definition getOrCreateSession_resume ::
  "'w browser_env \<Rightarrow> string \<Rightarrow> suspended \<Rightarrow> 'w \<Rightarrow> WebActionManager \<Rightarrow>
     (thrown + nat) \<times> 'w \<times> WebActionManager" where
  "getOrCreateSession_resume env pid k w m =
     (case k of
        AwaitNewPage existing \<Rightarrow>
          (case newPage env (browserContext (store m existing)) w of
             (Inl t, w1) \<Rightarrow> (Inl t, w1, m)
           | (Inr pg, w1) \<Rightarrow>
               (Inr existing, w1,
                m\<lparr>store := (store m)(existing := (store m existing)\<lparr>page := pg\<rparr>)\<rparr>))
      | AwaitLaunch userDataDir hl \<Rightarrow>
          (case launchPersistentContext env userDataDir hl w of
             (Inl t, w1) \<Rightarrow> (Inl t, w1, m)
           | (Inr ctx, w1) \<Rightarrow>
               (case applyStealthToContext env ctx w1 of
                  (Some t, w2) \<Rightarrow> (Inl t, w2, m)
                | (None, w2) \<Rightarrow>
                    (case firstPageOrNew env ctx w2 of
                       (Inl t, w3) \<Rightarrow> (Inl t, w3, m)
                     | (Inr pg, w3) \<Rightarrow>
                         (case tryCursor env pg w3 of (cur, w4) \<Rightarrow>
                            (case registerSession pid
                                    \<lparr>profileId = pid, browserContext = ctx, page = pg,
                                     cursor = cur, createdAt = dateNow env w4,
                                     lastActivity = dateNow env w4, cdpBrowser = None\<rparr> m of
                               (session, m1) \<Rightarrow> (Inr session, w4, m1))))))
      | AwaitConnect wsUrl \<Rightarrow>
          (case connectOverCDP env wsUrl w of
             (Inl t, w1) \<Rightarrow> (Inl t, w1, m)
           | (Inr browser, w1) \<Rightarrow>
               (case (case contexts env browser w1 of
                        ctx # _ \<Rightarrow> (Inr ctx, w1)
                      | [] \<Rightarrow> newContext env browser w1) of
                  (Inl t, w2) \<Rightarrow> (Inl t, w2, m)
                | (Inr ctx, w2) \<Rightarrow>
                    (case applyStealthToContext env ctx w2 of
                       (Some t, w3) \<Rightarrow> (Inl t, w3, m)
                     | (None, w3) \<Rightarrow>
                         (case firstPageOrNew env ctx w3 of
                            (Inl t, w4) \<Rightarrow> (Inl t, w4, m)
                          | (Inr pg, w4) \<Rightarrow>
                              (case setViewportSize env pg 1280 800 w4 of
                                 (Some t, w5) \<Rightarrow> (Inl t, w5, m)
                               | (None, w5) \<Rightarrow>
                                   (case tryCursor env pg w5 of (cur, w6) \<Rightarrow>
                                      (case registerSession pid
                                              \<lparr>profileId = pid, browserContext = ctx, page = pg,
                                               cursor = cur, createdAt = dateNow env w5,
                                               lastActivity = dateNow env w5,
                                               cdpBrowser = Some browser\<rparr> m of
                                         (session, m1) \<Rightarrow> (Inr session, w6, m1)))))))))"

text \<open>One call that nothing interrupts.\<close>

definition getOrCreateSession ::
  "'w browser_env \<Rightarrow> string \<Rightarrow> SessionOptions option \<Rightarrow> 'w \<times> WebActionManager \<Rightarrow>
     (thrown + nat) \<times> 'w \<times> WebActionManager" where
  "getOrCreateSession env pid options st =
     (case st of (w, m) \<Rightarrow>
        (case getOrCreateSession_begin env pid options w m of
           (Finished session, m1) \<Rightarrow> (Inr session, w, m1)
         | (Suspended k, m1) \<Rightarrow> getOrCreateSession_resume env pid k w m1))"

section \<open>Instances and notions the properties are stated with\<close>

text \<open>\<open>new PlaywrightScraperAdapter(cacheSize, cacheTTL)\<close>, and
  \<open>createPlaywrightScraperAdapter()\<close> with the defaults of the constructor.\<close>

definition newPlaywrightScraperAdapter :: "int \<Rightarrow> int \<Rightarrow> PlaywrightScraperAdapter" where
  "newPlaywrightScraperAdapter cacheSize cacheTTL =
     \<lparr>adapter_cache = \<lparr>lru_cache = [], lru_maxSize = cacheSize, lru_ttl = cacheTTL\<rparr>,
      backendCalls = []\<rparr>"

definition createPlaywrightScraperAdapter :: PlaywrightScraperAdapter where
  "createPlaywrightScraperAdapter = newPlaywrightScraperAdapter 200 (30 * 60 * 1000)"

text \<open>The options object \<open>{}\<close>, and \<open>{ concurrency, retries }\<close>.\<close>

definition noOptions :: ScrapeOptions where
  "noOptions = \<lparr>timeout = None, waitFor = None, waitForSelector = None, extractMedia = None,
     extractLinks = None, extractMetadata = None, cache = None, jsCode = None\<rparr>"

definition batchOptions :: "int \<Rightarrow> int \<Rightarrow> BatchScrapeOptions" where
  "batchOptions c r = ScrapeOptions.extend noOptions
     (BatchScrapeOptions.fields (Some c) (Some r) None)"

text \<open>
  An environment to run the adapter in: the world is the clock; every backend call
  takes 40 ms and fails for the targets in \<open>down\<close>; the signal is aborted from the time
  \<open>abortAt\<close> on (never, when \<open>None\<close>); of the operations that are awaited, the one that
  completes first is told from the clock, so that the members of a window take turns.
\<close>

definition exampleEnv :: "string set \<Rightarrow> int option \<Rightarrow> int env" where
  "exampleEnv down abortAt =
     \<lparr>now = (\<lambda>w. w),
      aborted = (\<lambda>w. case abortAt of None \<Rightarrow> False | Some t \<Rightarrow> t \<le> w),
      browse = (\<lambda>u opts w.
         (if u \<in> down then Inl (ThrownError (Error ''net::ERR_CONNECTION_REFUSED''))
          else Inr \<lparr>page_url = u, page_title = ''Title'', page_content = ''<p>text</p>'',
                    response_status = Some 200, response_contentType = Some ''text/html''\<rparr>,
          w + 40)),
      teardown = (\<lambda>w. (None, w + 1)),
      sleep = (\<lambda>ms w. w + max 0 ms),
      completesFirst = (\<lambda>w ks. ks ! nat (w mod int (length ks))),
      getRandomDelay = (\<lambda>lo hi w. lo),
      jitter = (\<lambda>w. 0),
      htmlToText = (\<lambda>h. h),
      htmlToMarkdown = (\<lambda>h. h),
      extractLinksFn = (\<lambda>h u. []),
      extractMediaFn = (\<lambda>h u. []),
      extractMetadataFn = (\<lambda>h. [])\<rparr>"

text \<open>A page that has just connected, and a parser for three frames: the responses to
  the commands 1 and 7, and an event (which has no \<open>id\<close>).\<close>

definition examplePage :: CDPPage where
  "examplePage = \<lparr>ws = Some (WebSocket ''ws://127.0.0.1:9222/devtools/page/1''), messageId = 0,
     pendingCommands = [], settlements = [], sentFrames = []\<rparr>"

definition exampleParse :: "string \<Rightarrow> json option" where
  "exampleParse d =
     (if d = ''{id:1,result:{}}'' then Some (JObj [(''id'', JNum 1), (''result'', JObj [])])
      else if d = ''{id:7,result:{}}'' then Some (JObj [(''id'', JNum 7), (''result'', JObj [])])
      else if d = ''{method:Page.loadEventFired}''
        then Some (JObj [(''method'', JStr ''Page.loadEventFired'')])
      else None)"

text \<open>\<open>new WebActionManager()\<close> (no session, nothing allocated), and a browser that
  hands out a fresh handle for every context, page and browser it is asked for: the
  world is the counter of the handles.\<close>

definition newWebActionManager :: WebActionManager where
  "newWebActionManager =
     \<lparr>sessions = [],
      store = (\<lambda>r. \<lparr>profileId = [], browserContext = 0, page = 0, cursor = None,
                       createdAt = 0, lastActivity = 0, cdpBrowser = None\<rparr>),
      allocated = 0\<rparr>"

definition exampleBrowser :: "nat browser_env" where
  "exampleBrowser =
     \<lparr>dateNow = (\<lambda>w. int w),
      isClosed = (\<lambda>pg w. False),
      newPage = (\<lambda>ctx w. (Inr w, w + 1)),
      launchPersistentContext = (\<lambda>dir hl w. (Inr w, w + 1)),
      applyStealthToContext = (\<lambda>ctx w. (None, w)),
      pages = (\<lambda>ctx w. []),
      createHumanCursor = (\<lambda>pg w. (Inr pg, w)),
      resolveCdpWebSocketUrl = (\<lambda>u w. u),
      connectOverCDP = (\<lambda>u w. (Inr w, w + 1)),
      contexts = (\<lambda>b w. []),
      newContext = (\<lambda>b w. (Inr w, w + 1)),
      setViewportSize = (\<lambda>pg width height w. (None, w)),
      PROFILES_DIR = ''/home/user/.onecrawl/profiles''\<rparr>"

text \<open>A target is \<open>uncached\<close> when a scrape of it cannot be answered from the cache:
  caching is off, or the cache has no entry under its key.\<close>

definition uncached :: "ScrapeOptions \<Rightarrow> string \<Rightarrow> PlaywrightScraperAdapter \<Rightarrow> bool" where
  "uncached so u a \<longleftrightarrow>
     \<not> orDefault (cache so) True \<or> map_of (lru_cache (adapter_cache a)) (cacheKey u so) = None"

text \<open>The attempts made on a target, in the order in which they settled.\<close>

definition attemptsOf ::
  "string \<Rightarrow> (string \<times> (thrown + ScrapeResponse)) list \<Rightarrow> (thrown + ScrapeResponse) list" where
  "attemptsOf u att = map snd (filter (\<lambda>p. fst p = u) att)"

text \<open>
  Where a member of a window stands, in a batch in which every attempt fails: all the
  attempts made on its target so far have thrown; a member that awaits its \<open>n\<close>-th call
  (counted from 0) or the \<open>finally\<close> block of it has \<open>n\<close> of them behind it, a member
  that sleeps after it \<open>n + 1\<close>, and a member that has returned has made
  \<open>retries + 1\<close> and has put the error of the last one into the failure map.
\<close>

definition member_failing ::
  "int \<Rightarrow> string \<Rightarrow> member \<Rightarrow> (string \<times> js_error) list \<Rightarrow>
     (string \<times> (thrown + ScrapeResponse)) list \<Rightarrow> bool" where
  "member_failing R u m fl att \<longleftrightarrow>
     (\<exists>ts. attemptsOf u att = map Inl ts \<and>
        (case m of
           Attempting n started \<Rightarrow> (\<exists>t0. started = InFlight t0) \<and> 0 \<le> n \<and> n \<le> R \<and> length ts = nat n
         | Closing n outcome \<Rightarrow> isl outcome \<and> 0 \<le> n \<and> n \<le> R \<and> length ts = nat n
         | Sleeping n e \<Rightarrow> 0 \<le> n \<and> n < R \<and> length ts = nat n + 1
         | Returned \<Rightarrow> length ts = nat (R + 1) \<and> map_of fl u = Some (toError (last ts))))"

text \<open>
  A target is \<open>recorded\<close> when the results map holds, under it, the result of an attempt
  on it that succeeded. Where a member stands in a window in which every call gets
  through: its call is in flight, or in its \<open>finally\<close> block with a response, or the
  member has returned and its target is recorded; it never sleeps.
\<close>

definition recorded ::
  "string \<Rightarrow> (string \<times> ScrapeResult) list \<Rightarrow> (string \<times> (thrown + ScrapeResponse)) list \<Rightarrow> bool"
  where
  "recorded u res att \<longleftrightarrow>
     (\<exists>response. (u, Inr response) \<in> set att \<and> map_of res u = Some (result response))"

definition member_through ::
  "string \<Rightarrow> member \<Rightarrow> (string \<times> ScrapeResult) list \<Rightarrow>
     (string \<times> (thrown + ScrapeResponse)) list \<Rightarrow> bool" where
  "member_through u m res att \<longleftrightarrow>
     (case m of
        Attempting n started \<Rightarrow> (\<exists>t0. started = InFlight t0)
      | Closing n outcome \<Rightarrow> \<not> isl outcome
      | Sleeping n e \<Rightarrow> False
      | Returned \<Rightarrow> recorded u res att)"

section \<open>Properties of the result cache\<close>

lemma LruCache_set_under_capacity:
  "int (length (entries c)) < maxSize c \<Longrightarrow>
   LruCache_set K E c = (None, c\<lparr>entries := AList.update K E (entries c)\<rparr>)"
  by (simp add: LruCache_set_def)

text \<open>
  C7. For every key \<open>K\<close> and entry \<open>E\<close> stamped with the current time \<open>t\<close>, on a cache
  under capacity, \<open>get(K)\<close> at time \<open>t\<close> right after \<open>set(K, E)\<close> returns \<open>E\<close> whenever
  the time-to-live is not negative, zero included: an entry expires when its age is
  strictly greater than the time-to-live. Only under a negative time-to-live is the
  answer absent.
\<close>

theorem LruCache_get_after_set:
  assumes "int (length (entries c)) < maxSize c" and "timestamp E = t"
  shows "\<exists>c'. LruCache_set K E c = (None, c') \<and>
           fst (LruCache_get t K c') = (if 0 \<le> ttl c then Some E else None)"
  using assms by (simp add: LruCache_set_def LruCache_get_def AList.update_conv')

theorem LruCache_get_after_set_witness:
  "int (length (entries \<lparr>entries = [], maxSize = 500, ttl = 1800000 :: int\<rparr>)) < 500 \<and>
   (\<exists>c'. LruCache_set ''k'' \<lparr>data = ''page'', timestamp = 1000, etag = None, lastModified = None\<rparr>
            \<lparr>entries = [], maxSize = 500, ttl = 1800000\<rparr> = (None, c') \<and>
         fst (LruCache_get 1000 ''k'' c') =
           Some \<lparr>data = ''page'', timestamp = 1000, etag = None, lastModified = None\<rparr>)"
  using LruCache_get_after_set [of "\<lparr>entries = [], maxSize = 500, ttl = 1800000\<rparr>"
      "\<lparr>data = ''page'', timestamp = 1000, etag = None, lastModified = None\<rparr>" 1000 "''k''"]
  by simp

text \<open>With a time-to-live of zero and no time passing, the entry just stored is returned,
  not absent.\<close>

theorem LruCache_zero_ttl_counterexample:
  "int (length (entries \<lparr>entries = [], maxSize = 500, ttl = 0 :: int\<rparr>)) < 500 \<and>
   ttl \<lparr>entries = ([] :: (string \<times> string CacheEntry) list), maxSize = 500, ttl = 0\<rparr> = 0 \<and>
   fst (LruCache_get 1000 ''k''
          (snd (LruCache_set ''k'' \<lparr>data = ''page'', timestamp = 1000, etag = None, lastModified = None\<rparr>
                  \<lparr>entries = [], maxSize = 500, ttl = 0\<rparr>))) \<noteq> None"
  by (simp add: LruCache_set_def LruCache_get_def)

subsection \<open>Eviction at capacity\<close>

lemma update_new_key:
  "k \<notin> fst ` set al \<Longrightarrow> AList.update k v al = al @ [(k, v)]"
  by (induction al) auto

lemma filter_delete:
  "filter P (AList.delete k es) = filter (\<lambda>p. fst p \<noteq> k \<and> P p) es"
  by (induction es) auto

lemma evict_loop_deletes:
  "i \<le> count \<Longrightarrow> count \<le> length srt \<Longrightarrow>
   evict_loop srt i count c =
     (None, c\<lparr>entries := filter (\<lambda>p. fst p \<notin> fst ` set (take (count - i) (drop i srt))) (entries c)\<rparr>)"
proof (induction srt i count c rule: evict_loop.induct)
  case (1 srt i count c)
  show ?case
  proof (cases "i < count")
    case False
    with "1.prems" show ?thesis by (subst evict_loop.simps) simp
  next
    case True
    with "1.prems" have il: "i < length srt" by simp
    have dr: "drop i srt = srt ! i # drop (Suc i) srt"
      using il by (simp add: Cons_nth_drop_Suc)
    have tk: "take (count - i) (drop i srt) = srt ! i # take (count - Suc i) (drop (Suc i) srt)"
    proof -
      from True have "count - i = Suc (count - Suc i)" by arith
      then show ?thesis using dr by simp
    qed
    have IH: "evict_loop srt (i + 1) count (c\<lparr>entries := AList.delete (fst (srt ! i)) (entries c)\<rparr>) =
       (None, c\<lparr>entries := filter (\<lambda>p. fst p \<notin> fst ` set (take (count - (i + 1)) (drop (i + 1) srt)))
           (AList.delete (fst (srt ! i)) (entries c))\<rparr>)"
      using "1.IH"[OF True il] True "1.prems" by simp
    have step: "evict_loop srt i count c =
        evict_loop srt (i + 1) count (c\<lparr>entries := AList.delete (fst (srt ! i)) (entries c)\<rparr>)"
      by (subst evict_loop.simps) (simp add: True il)
    show ?thesis
      unfolding step IH by (simp add: tk filter_delete)
  qed
qed

lemma sorted_take_le_drop:
  assumes "sorted (map f xs)" "a \<in> set (take n xs)" "b \<in> set (drop n xs)"
  shows "f a \<le> f b"
proof -
  have "sorted (map f (take n xs) @ map f (drop n xs))"
    using assms(1) by (metis append_take_drop_id map_append)
  then show ?thesis using assms(2,3) by (auto simp: sorted_append)
qed

lemma distinct_fst_eq:
  "distinct (map fst xs) \<Longrightarrow> p \<in> set xs \<Longrightarrow> q \<in> set xs \<Longrightarrow> fst p = fst q \<Longrightarrow> p = q"
  by (metis eq_key_imp_eq_value prod.collapse)

lemma length_filter_notin:
  assumes "distinct xs" "distinct ys" "set ys \<subseteq> set xs"
  shows "length (filter (\<lambda>p. p \<notin> set ys) xs) = length xs - length ys"
proof -
  have "length (filter (\<lambda>p. p \<notin> set ys) xs) = card ({p. p \<notin> set ys} \<inter> set xs)"
    using assms(1) by (rule distinct_length_filter)
  also have "{p. p \<notin> set ys} \<inter> set xs = set xs - set ys" by auto
  also have "card (set xs - set ys) = card (set xs) - card (set ys)"
    using assms(3) by (simp add: card_Diff_subset)
  finally show ?thesis
    using assms(1,2) by (simp add: distinct_card)
qed

text \<open>
  C8. For every cache of capacity \<open>maxSize \<ge> 1\<close> whose entry count has reached the
  capacity, \<open>set\<close> of a new key first evicts exactly \<open>max(1, floor(maxSize * 0.1))\<close>
  entries, those with the oldest timestamps (every evicted entry is at most as recent as
  every entry that stays), and then inserts the new entry at the end.
\<close>

theorem LruCache_set_at_capacity:
  assumes dist: "distinct (map fst (entries c))"
    and cap1: "1 \<le> maxSize c"
    and full: "maxSize c \<le> int (length (entries c))"
    and new: "key \<notin> fst ` set (entries c)"
  shows "\<exists>evicted c'.
      LruCache_set key entry c = (None, c')
    \<and> evicted = take (nat (max 1 (maxSize c div 10))) (sort_key (\<lambda>p. timestamp (snd p)) (entries c))
    \<and> int (length evicted) = max 1 (maxSize c div 10)
    \<and> set evicted \<subseteq> set (entries c)
    \<and> (\<forall>v \<in> set evicted. \<forall>s \<in> set (entries c) - set evicted.
          timestamp (snd v) \<le> timestamp (snd s))
    \<and> entries c' = filter (\<lambda>p. p \<notin> set evicted) (entries c) @ [(key, entry)]
    \<and> int (length (entries c')) = int (length (entries c)) - max 1 (maxSize c div 10) + 1
    \<and> maxSize c' = maxSize c \<and> ttl c' = ttl c"
proof -
  define srt where "srt = sort_key (\<lambda>p. timestamp (snd p)) (entries c)"
  define n where "n = nat (max 1 (maxSize c div 10))"
  define evicted where "evicted = take n srt"
  define c' where "c' = c\<lparr>entries := filter (\<lambda>p. p \<notin> set evicted) (entries c) @ [(key, entry)]\<rparr>"
  have n_int: "int n = max 1 (maxSize c div 10)"
    by (simp add: n_def)
  have n_le: "n \<le> length srt"
    using cap1 full by (simp add: n_def srt_def)
  have len_ev: "length evicted = n"
    using n_le by (simp add: evicted_def)
  have sub: "set evicted \<subseteq> set (entries c)"
    unfolding evicted_def srt_def by (metis set_sort set_take_subset)
  have dent: "distinct (entries c)"
    using dist by (rule distinct_map[THEN iffD1, THEN conjunct1])
  have dev: "distinct evicted"
    unfolding evicted_def srt_def using dent by simp
  have ev: "LruCache_evict c =
      (None, c\<lparr>entries := filter (\<lambda>p. fst p \<notin> fst ` set evicted) (entries c)\<rparr>)"
    unfolding LruCache_evict_def evict_count_def
    using evict_loop_deletes[of 0 n srt c] n_le
    by (simp add: srt_def n_def evicted_def)
  have filt: "filter (\<lambda>p. fst p \<notin> fst ` set evicted) (entries c)
      = filter (\<lambda>p. p \<notin> set evicted) (entries c)"
  proof (rule filter_cong[OF refl])
    fix p assume p: "p \<in> set (entries c)"
    show "(fst p \<notin> fst ` set evicted) = (p \<notin> set evicted)"
    proof
      assume "fst p \<notin> fst ` set evicted" then show "p \<notin> set evicted" by auto
    next
      assume pn: "p \<notin> set evicted"
      show "fst p \<notin> fst ` set evicted"
      proof
        assume "fst p \<in> fst ` set evicted"
        then obtain q where q: "q \<in> set evicted" "fst p = fst q" by auto
        with sub have "q \<in> set (entries c)" by auto
        have "p = q" using distinct_fst_eq[OF dist p \<open>q \<in> set (entries c)\<close> q(2)] .
        with q(1) pn show False by simp
      qed
    qed
  qed
  have newk: "key \<notin> fst ` set (filter (\<lambda>p. p \<notin> set evicted) (entries c))"
    using new by auto
  have set_eq: "LruCache_set key entry c = (None, c')"
    using full newk by (simp add: LruCache_set_def ev filt c'_def update_new_key)
  have oldest: "\<forall>v \<in> set evicted. \<forall>s \<in> set (entries c) - set evicted.
          timestamp (snd v) \<le> timestamp (snd s)"
  proof (intro ballI)
    fix v s assume v: "v \<in> set evicted" and s: "s \<in> set (entries c) - set evicted"
    have "set (entries c) = set (take n srt) \<union> set (drop n srt)"
      by (metis append_take_drop_id set_append set_sort srt_def)
    with s have sd: "s \<in> set (drop n srt)" by (auto simp: evicted_def)
    have "sorted (map (\<lambda>p. timestamp (snd p)) srt)"
      unfolding srt_def by (rule sorted_sort_key)
    from sorted_take_le_drop[OF this v[unfolded evicted_def] sd]
    show "timestamp (snd v) \<le> timestamp (snd s)" .
  qed
  have len: "int (length (entries c')) = int (length (entries c)) - max 1 (maxSize c div 10) + 1"
    using length_filter_notin[OF dent dev sub] n_le len_ev n_int
    by (simp add: c'_def srt_def)
  have ev_eq: "evicted = take (nat (max 1 (maxSize c div 10))) (sort_key (\<lambda>p. timestamp (snd p)) (entries c))"
    by (simp add: evicted_def srt_def n_def)
  have len_ev': "int (length evicted) = max 1 (maxSize c div 10)"
    using len_ev n_int by simp
  have ents: "entries c' = filter (\<lambda>p. p \<notin> set evicted) (entries c) @ [(key, entry)]"
    by (simp add: c'_def)
  have keep: "maxSize c' = maxSize c \<and> ttl c' = ttl c"
    by (simp add: c'_def)
  from set_eq ev_eq len_ev' sub oldest ents len keep
  show ?thesis by blast
qed

theorem LruCache_set_at_capacity_witness:
  "distinct (map fst (entries \<lparr>entries = [(''a'', \<lparr>data = ''A'', timestamp = 5, etag = None, lastModified = None\<rparr>),
                                          (''b'', \<lparr>data = ''B'', timestamp = 3, etag = None, lastModified = None\<rparr>)],
                               maxSize = 2, ttl = 1000 :: int\<rparr>)) \<and>
   LruCache_set ''c'' \<lparr>data = ''C'', timestamp = 7, etag = None, lastModified = None\<rparr>
      \<lparr>entries = [(''a'', \<lparr>data = ''A'', timestamp = 5, etag = None, lastModified = None\<rparr>),
                  (''b'', \<lparr>data = ''B'', timestamp = 3, etag = None, lastModified = None\<rparr>)],
       maxSize = 2, ttl = 1000\<rparr> =
     (None, \<lparr>entries = [(''a'', \<lparr>data = ''A'', timestamp = 5, etag = None, lastModified = None\<rparr>),
                        (''c'', \<lparr>data = ''C'', timestamp = 7, etag = None, lastModified = None\<rparr>)],
             maxSize = 2, ttl = 1000\<rparr>)"
  using LruCache_set_at_capacity [of
      "\<lparr>entries = [(''a'', \<lparr>data = ''A'', timestamp = 5, etag = None, lastModified = None\<rparr>),
                  (''b'', \<lparr>data = ''B'', timestamp = 3, etag = None, lastModified = None\<rparr>)],
       maxSize = 2, ttl = 1000\<rparr>" "''c''"
      "\<lparr>data = ''C'', timestamp = 7, etag = None, lastModified = None\<rparr>"]
  by auto

text \<open>A cache of capacity zero is at capacity when empty; \<open>set\<close> then throws out of
  \<open>evict\<close> and stores nothing.\<close>

theorem LruCache_set_zero_capacity_counterexample:
  "int (length (entries \<lparr>entries = ([] :: (string \<times> string CacheEntry) list), maxSize = 0, ttl = 1000\<rparr>)) \<ge> 0 \<and>
   LruCache_set ''k'' \<lparr>data = ''page'', timestamp = 1, etag = None, lastModified = None\<rparr>
      \<lparr>entries = [], maxSize = 0, ttl = 1000\<rparr> =
     (Some (TypeError ''Cannot read properties of undefined''), \<lparr>entries = [], maxSize = 0, ttl = 1000\<rparr>)"
  by (simp add: LruCache_set_def LruCache_evict_def evict_count_def evict_loop.simps)

subsection \<open>Reads and the eviction order\<close>

text \<open>
  C9. In the fetch-pool \<open>LruCache\<close> a read does not touch the eviction order: a
  \<open>get(k)\<close> that finds \<open>k\<close> missing or not expired leaves the cache as it was, so an
  eviction, and every insertion that follows, removes the same keys with the read as
  without it. (A \<open>get\<close> that finds \<open>k\<close> expired deletes \<open>k\<close>, and the \<open>LRUCache\<close> of the
  Playwright adapter moves an entry to the end on every hit.)
\<close>

theorem LruCache_read_keeps_eviction:
  assumes "map_of (entries c) k = None \<or>
           (\<exists>e. map_of (entries c) k = Some e \<and> t - timestamp e \<le> ttl c)"
  shows "snd (LruCache_get t k c) = c \<and>
         LruCache_evict (snd (LruCache_get t k c)) = LruCache_evict c \<and>
         (\<forall>key entry. LruCache_set key entry (snd (LruCache_get t k c)) = LruCache_set key entry c)"
proof -
  have "snd (LruCache_get t k c) = c"
    using assms by (auto simp: LruCache_get_def)
  then show ?thesis by simp
qed

theorem LruCache_read_keeps_eviction_witness:
  "map_of (entries \<lparr>entries = [(''a'', \<lparr>data = ''A'', timestamp = 5, etag = None, lastModified = None\<rparr>),
                               (''b'', \<lparr>data = ''B'', timestamp = 3, etag = None, lastModified = None\<rparr>)],
                    maxSize = 2, ttl = 1000 :: int\<rparr>) ''a''
     = Some \<lparr>data = ''A'', timestamp = 5, etag = None, lastModified = None\<rparr> \<and>
   (8 :: int) - 5 \<le> 1000 \<and>
   snd (LruCache_get 8 ''a''
          \<lparr>entries = [(''a'', \<lparr>data = ''A'', timestamp = 5, etag = None, lastModified = None\<rparr>),
                      (''b'', \<lparr>data = ''B'', timestamp = 3, etag = None, lastModified = None\<rparr>)],
           maxSize = 2, ttl = 1000\<rparr>) =
     \<lparr>entries = [(''a'', \<lparr>data = ''A'', timestamp = 5, etag = None, lastModified = None\<rparr>),
                 (''b'', \<lparr>data = ''B'', timestamp = 3, etag = None, lastModified = None\<rparr>)],
      maxSize = 2, ttl = 1000\<rparr>"
  using LruCache_read_keeps_eviction [of
      "\<lparr>entries = [(''a'', \<lparr>data = ''A'', timestamp = 5, etag = None, lastModified = None\<rparr>),
                  (''b'', \<lparr>data = ''B'', timestamp = 3, etag = None, lastModified = None\<rparr>)],
       maxSize = 2, ttl = 1000\<rparr>" "''a''" 8]
  by simp

text \<open>
  In the Playwright adapter's \<open>LRUCache\<close> (capacity 2, holding \<open>a\<close> then \<open>b\<close>) inserting
  \<open>c\<close> evicts \<open>a\<close>, but after a read of \<open>a\<close> it evicts \<open>b\<close>. In the fetch-pool \<open>LruCache\<close>
  (capacity 3, holding \<open>a\<close>, \<open>k\<close>, \<open>b\<close>, all past their time-to-live) inserting \<open>c\<close>
  evicts \<open>a\<close>, but after a read of \<open>k\<close>, which deletes \<open>k\<close>, it evicts nothing.
\<close>

theorem read_changes_eviction_counterexample:
  "map fst (lru_cache (LRUCache_set 3 ''c'' (3 :: nat)
       \<lparr>lru_cache = [(''a'', \<lparr>entry_data = 1, entry_timestamp = 1\<rparr>),
                     (''b'', \<lparr>entry_data = 2, entry_timestamp = 2\<rparr>)],
        lru_maxSize = 2, lru_ttl = 1000\<rparr>)) = [''b'', ''c''] \<and>
   map fst (lru_cache (LRUCache_set 3 ''c'' (3 :: nat)
       (snd (LRUCache_get 3 ''a''
          \<lparr>lru_cache = [(''a'', \<lparr>entry_data = 1, entry_timestamp = 1\<rparr>),
                        (''b'', \<lparr>entry_data = 2, entry_timestamp = 2\<rparr>)],
           lru_maxSize = 2, lru_ttl = 1000\<rparr>)))) = [''a'', ''c''] \<and>
   map fst (entries (snd (LruCache_set ''c''
       \<lparr>data = 4 :: nat, timestamp = 100, etag = None, lastModified = None\<rparr>
       \<lparr>entries = [(''a'', \<lparr>data = 1, timestamp = 0, etag = None, lastModified = None\<rparr>),
                   (''k'', \<lparr>data = 2, timestamp = 1, etag = None, lastModified = None\<rparr>),
                   (''b'', \<lparr>data = 3, timestamp = 2, etag = None, lastModified = None\<rparr>)],
        maxSize = 3, ttl = 10\<rparr>))) = [''k'', ''b'', ''c''] \<and>
   map fst (entries (snd (LruCache_set ''c''
       \<lparr>data = 4 :: nat, timestamp = 100, etag = None, lastModified = None\<rparr>
       (snd (LruCache_get 100 ''k''
          \<lparr>entries = [(''a'', \<lparr>data = 1, timestamp = 0, etag = None, lastModified = None\<rparr>),
                      (''k'', \<lparr>data = 2, timestamp = 1, etag = None, lastModified = None\<rparr>),
                      (''b'', \<lparr>data = 3, timestamp = 2, etag = None, lastModified = None\<rparr>)],
           maxSize = 3, ttl = 10\<rparr>))))) = [''a'', ''b'', ''c'']"
  by (simp add: LRUCache_set_def LRUCache_get_def LruCache_set_def LruCache_get_def
        LruCache_evict_def evict_count_def evict_loop.simps)

section \<open>Properties of the browser-rendered backend\<close>

subsection \<open>Two acquisitions of one target\<close>

lemma LRUCache_set_lookup:
  "map_of (lru_cache (LRUCache_set t key d c)) key = Some \<lparr>entry_data = d, entry_timestamp = t\<rparr>"
  by (simp add: LRUCache_set_def Let_def AList.update_conv')

lemma LRUCache_set_ttl: "lru_ttl (LRUCache_set t key d c) = lru_ttl c"
  by (simp add: LRUCache_set_def Let_def)

lemma LRUCache_get_hit:
  "map_of (lru_cache c) key = Some e \<Longrightarrow> t - entry_timestamp e \<le> lru_ttl c \<Longrightarrow>
   fst (LRUCache_get t key c) = Some (entry_data e)"
  by (simp add: LRUCache_get_def)

lemma LRUCache_get_ttl: "lru_ttl (snd (LRUCache_get t key c)) = lru_ttl c"
  by (simp add: LRUCache_get_def split: option.splits)

text \<open>
  C1. With caching enabled, a target that has no fresh cache entry, no cancellation and
  a backend call that gets through: the first \<open>scrape\<close> makes one backend call,
  returns a response that is not flagged as cached and stores its result under the
  cache key; a second \<open>scrape\<close> of the same target with the same options, in any
  world that is within the time-to-live of that entry, returns at once with
  \<open>cached = true\<close> and the same result, leaves the world as it is and makes no
  backend call: one call in all. (The cache need not be under capacity for this.)
\<close>

theorem scrape_twice_one_backend_call:
  assumes caching: "orDefault (cache opts) True"
    and miss: "fst (LRUCache_get (now env w0) (cacheKey u opts) (adapter_cache a0)) = None"
    and not_aborted: "\<not> aborted env w0"
    and backend: "browse env u opts w0 = (Inr raw, wb)"
    and closed: "teardown env wb = (None, w1)"
    and within_ttl: "now env w2 - now env wb \<le> lru_ttl (adapter_cache a0)"
  shows "\<exists>r1 a1.
           scrape env u opts (w0, a0) = (Inr r1, w1, a1) \<and> \<not> cached r1 \<and>
           backendCalls a1 = backendCalls a0 @ [u] \<and>
           map_of (lru_cache (adapter_cache a1)) (cacheKey u opts) =
             Some \<lparr>entry_data = result r1, entry_timestamp = now env wb\<rparr> \<and>
           (\<exists>r2 a2. scrape env u opts (w2, a1) = (Inr r2, w2, a2) \<and>
                cached r2 \<and> result r2 = result r1 \<and>
                backendCalls a2 = backendCalls a0 @ [u])"
proof -
  define c0 where "c0 = snd (LRUCache_get (now env w0) (cacheKey u opts) (adapter_cache a0))"
  define res where "res = buildResult env u opts raw (now env wb - now env w0)"
  define r1 where "r1 = \<lparr>result = res, cached = False, duration = now env wb - now env w0,
                         source = ''playwright''\<rparr>"
  define a1 where "a1 = a0\<lparr>adapter_cache := LRUCache_set (now env wb) (cacheKey u opts) res c0,
                           backendCalls := backendCalls a0 @ [u]\<rparr>"
  have first: "scrape env u opts (w0, a0) = (Inr r1, w1, a1)"
    using caching miss not_aborted backend closed
    by (simp add: scrape_def scrape_begin_def scrape_await_def scrape_finish_def scrape_extract_def
          scrape_cleanup_def Let_def c0_def res_def r1_def a1_def)
  have stored: "map_of (lru_cache (adapter_cache a1)) (cacheKey u opts) =
             Some \<lparr>entry_data = result r1, entry_timestamp = now env wb\<rparr>"
    by (simp add: a1_def r1_def LRUCache_set_lookup)
  have ttl1: "lru_ttl (adapter_cache a1) = lru_ttl (adapter_cache a0)"
    by (simp add: a1_def c0_def LRUCache_set_ttl LRUCache_get_ttl)
  have hit: "fst (LRUCache_get (now env w2) (cacheKey u opts) (adapter_cache a1)) = Some (result r1)"
    using LRUCache_get_hit[OF stored] within_ttl ttl1 by simp
  have second: "scrape env u opts (w2, a1) =
      (Inr \<lparr>result = result r1, cached = True, duration = 0, source = ''playwright''\<rparr>, w2,
       a1\<lparr>adapter_cache := snd (LRUCache_get (now env w2) (cacheKey u opts) (adapter_cache a1))\<rparr>)"
    using caching hit by (simp add: scrape_def scrape_begin_def scrape_await_def Let_def)
  have calls: "backendCalls a1 = backendCalls a0 @ [u]" by (simp add: a1_def)
  have unc: "\<not> cached r1" by (simp add: r1_def)
  show ?thesis
    using first unc calls stored second by simp
qed

theorem scrape_twice_one_backend_call_witness:
  "orDefault (cache noOptions) True \<and>
   fst (LRUCache_get (now (exampleEnv {} None) 0) (cacheKey ''https://example.com'' noOptions)
          (adapter_cache createPlaywrightScraperAdapter)) = None \<and>
   \<not> aborted (exampleEnv {} None) 0 \<and>
   fst (browse (exampleEnv {} None) ''https://example.com'' noOptions 0) =
     Inr \<lparr>page_url = ''https://example.com'', page_title = ''Title'', page_content = ''<p>text</p>'',
          response_status = Some 200, response_contentType = Some ''text/html''\<rparr> \<and>
   teardown (exampleEnv {} None) 40 = (None, 41) \<and>
   now (exampleEnv {} None) 5000 - now (exampleEnv {} None) 40
     \<le> lru_ttl (adapter_cache createPlaywrightScraperAdapter) \<and>
   (\<exists>r1 a1.
      scrape (exampleEnv {} None) ''https://example.com'' noOptions (0, createPlaywrightScraperAdapter)
        = (Inr r1, 41, a1) \<and> \<not> cached r1 \<and>
      backendCalls a1 = [''https://example.com''] \<and>
      (\<exists>r2 a2. scrape (exampleEnv {} None) ''https://example.com'' noOptions (5000, a1)
                  = (Inr r2, 5000, a2) \<and>
               cached r2 \<and> result r2 = result r1 \<and> backendCalls a2 = [''https://example.com'']))"
proof -
  have c: "orDefault (cache noOptions) True" by (simp add: noOptions_def orDefault_def)
  have m: "fst (LRUCache_get (now (exampleEnv {} None) 0) (cacheKey ''https://example.com'' noOptions)
          (adapter_cache createPlaywrightScraperAdapter)) = None"
    by (simp add: LRUCache_get_def createPlaywrightScraperAdapter_def newPlaywrightScraperAdapter_def)
  have na: "\<not> aborted (exampleEnv {} None) 0" by (simp add: exampleEnv_def)
  have b: "browse (exampleEnv {} None) ''https://example.com'' noOptions 0 =
     (Inr \<lparr>page_url = ''https://example.com'', page_title = ''Title'', page_content = ''<p>text</p>'',
          response_status = Some 200, response_contentType = Some ''text/html''\<rparr>, 40)"
    by (simp add: exampleEnv_def)
  have t: "teardown (exampleEnv {} None) 40 = (None, 41)" by (simp add: exampleEnv_def)
  have w: "now (exampleEnv {} None) 5000 - now (exampleEnv {} None) 40
     \<le> lru_ttl (adapter_cache createPlaywrightScraperAdapter)"
    by (simp add: exampleEnv_def createPlaywrightScraperAdapter_def newPlaywrightScraperAdapter_def)
  have bc0: "backendCalls createPlaywrightScraperAdapter = []"
    by (simp add: createPlaywrightScraperAdapter_def newPlaywrightScraperAdapter_def)
  from scrape_twice_one_backend_call[OF c m na b t w]
  show ?thesis using c m na b t w bc0 by auto
qed

subsection \<open>The members of a window\<close>

text \<open>The steps of a member, one equation for each place it may be in.\<close>

lemma member_attempt_go:
  "attempt \<le> R \<Longrightarrow>
   member_attempt env so R u attempt le (w, a, res, fl, att) =
     (Attempting attempt (fst (scrape_begin env u so w a)),
      (w, snd (scrape_begin env u so w a), res, fl, att))"
  by (simp add: member_attempt_def split: prod.splits)

lemma member_attempt_stop:
  "\<not> attempt \<le> R \<Longrightarrow>
   member_attempt env so R u attempt le (w, a, res, fl, att) =
     (Returned, (w, a, res, (case le of Some e \<Rightarrow> AList.update u e fl | None \<Rightarrow> fl), att))"
  by (simp add: member_attempt_def split: option.splits)

lemma member_settled_success:
  "member_settled env so R u attempt (Inr response) (w, a, res, fl, att) =
     (Returned, (w, a, AList.update u (result response) res, fl, att @ [(u, Inr response)]))"
  by (simp add: member_settled_def)

lemma member_settled_retry:
  "attempt < R \<Longrightarrow>
   member_settled env so R u attempt (Inl t) (w, a, res, fl, att) =
     (Sleeping attempt (toError t), (w, a, res, fl, att @ [(u, Inl t)]))"
  by (simp add: member_settled_def)

lemma member_settled_last:
  "\<not> attempt < R \<Longrightarrow>
   member_settled env so R u attempt (Inl t) (w, a, res, fl, att) =
     member_attempt env so R u (attempt + 1) (Some (toError t)) (w, a, res, fl, att @ [(u, Inl t)])"
  by (simp add: member_settled_def)

lemma member_resume_settled:
  "member_resume env so R d u (Attempting attempt (Settled outcome)) (w, a, res, fl, att) =
     member_settled env so R u attempt outcome (w, a, res, fl, att)"
  by (simp add: member_resume_def)

lemma member_resume_in_flight:
  "member_resume env so R d u (Attempting attempt (InFlight t0)) (w, a, res, fl, att) =
     (Closing attempt (fst (scrape_extract env u so t0 (w, a))),
      (fst (snd (scrape_extract env u so t0 (w, a))), snd (snd (scrape_extract env u so t0 (w, a))),
       res, fl, att))"
  by (simp add: member_resume_def split: prod.splits)

lemma member_resume_closing:
  "member_resume env so R d u (Closing attempt outcome) (w, a, res, fl, att) =
     member_settled env so R u attempt (fst (scrape_cleanup env outcome w))
       (snd (scrape_cleanup env outcome w), a, res, fl, att)"
  by (simp add: member_resume_def split: prod.splits)

lemma member_resume_sleeping:
  "member_resume env so R d u (Sleeping attempt e) (w, a, res, fl, att) =
     member_attempt env so R u (attempt + 1) (Some e)
       (sleep env (d * (attempt + 1)) w, a, res, fl, att)"
  by (simp add: member_resume_def)

lemma member_resume_returned:
  "member_resume env so R d u Returned st = (Returned, st)"
  by (simp add: member_resume_def split: prod.splits)

lemma waiting_empty: "waiting ms = [] \<longleftrightarrow> (\<forall>p \<in> set ms. isReturned (snd p))"
  by (auto simp: waiting_def filter_empty_conv all_set_conv_all_nth)

lemma next_member_waiting:
  assumes "waiting ms \<noteq> []"
  shows "next_member env w ms \<in> set (waiting ms)"
proof (cases "filter (\<lambda>k. isSettled (snd (ms ! k))) [0..<length ms]")
  case Nil
  with assms show ?thesis by (auto simp: next_member_def Let_def intro: hd_in_set)
next
  case (Cons j js)
  then have "j \<in> set (filter (\<lambda>k. isSettled (snd (ms ! k))) [0..<length ms])" by simp
  then have "j < length ms" and "isSettled (snd (ms ! j))" by auto
  then have "j \<in> set (waiting ms)"
    by (auto simp: waiting_def isSettled_def isReturned_def split: member.splits)
  with Cons show ?thesis by (simp add: next_member_def)
qed

text \<open>What holds when the window starts to settle, and is kept by every step of every
  member that has not returned, holds when all have returned: whichever member the
  environment resumes next.\<close>

lemma scrapeMany_settle_invariant:
  assumes step: "\<And>ms st k. I ms st \<Longrightarrow> k < length ms \<Longrightarrow> \<not> isReturned (snd (ms ! k)) \<Longrightarrow>
        I (ms[k := (fst (ms ! k), fst (member_resume env so R d (fst (ms ! k)) (snd (ms ! k)) st))])
          (snd (member_resume env so R d (fst (ms ! k)) (snd (ms ! k)) st))"
    and final: "\<And>ms st. I ms st \<Longrightarrow> \<forall>p \<in> set ms. isReturned (snd p) \<Longrightarrow> P st"
  shows "I ms st \<Longrightarrow> P (scrapeMany_settle env so R d ms st)"
  using step final
proof (induction env so R d ms st rule: scrapeMany_settle.induct)
  case (1 env so R d ms st)
  note inv = "1.prems"(1) and step = "1.prems"(2) and final = "1.prems"(3)
  show ?case
  proof (cases "waiting ms = []")
    case True
    then have "scrapeMany_settle env so R d ms st = st"
      by (subst scrapeMany_settle.simps) simp
    with final[OF inv] True show ?thesis by (simp add: waiting_empty)
  next
    case False
    define k where "k = next_member env (fst st) ms"
    define stepped where "stepped = member_resume env so R d (fst (ms ! k)) (snd (ms ! k)) st"
    from next_member_waiting[OF False, of env "fst st"]
    have k: "k < length ms" and busy: "\<not> isReturned (snd (ms ! k))"
      by (auto simp: k_def waiting_def)
    have unfold: "scrapeMany_settle env so R d ms st =
        scrapeMany_settle env so R d (ms[k := (fst (ms ! k), fst stepped)]) (snd stepped)"
      by (subst scrapeMany_settle.simps) (simp add: False k_def stepped_def Let_def)
    have "I (ms[k := (fst (ms ! k), fst stepped)]) (snd stepped)"
      unfolding stepped_def by (rule step[OF inv k busy])
    from "1.IH"[OF False k_def stepped_def this step final] show ?thesis
      by (simp add: unfold)
  qed
qed

text \<open>What a step of a member does to the maps and to the list of attempts: nothing, or
  one attempt recorded together with its consequence. It touches no entry of another
  target, and it never removes a key.\<close>

lemma member_attempt_effect:
  assumes "member_attempt env so R u n (Some e) (w, a, res, fl, att) = (m', w', a', res', fl', att')"
  shows "w' = w \<and> res' = res \<and> att' = att \<and>
         ((\<not> isReturned m' \<and> fl' = fl) \<or> (m' = Returned \<and> a' = a \<and> fl' = AList.update u e fl))"
  using assms
  by (cases "n \<le> R") (auto simp: member_attempt_go member_attempt_stop isReturned_def)

lemma member_settled_effect:
  assumes "member_settled env so R u n outcome (w, a, res, fl, att) = (m', w', a', res', fl', att')"
  shows "w' = w \<and> a' = a \<and>
    ((\<exists>response. outcome = Inr response \<and> m' = Returned \<and>
        res' = AList.update u (result response) res \<and> fl' = fl \<and> att' = att @ [(u, Inr response)]) \<or>
     (\<exists>t. outcome = Inl t \<and> n < R \<and> m' = Sleeping n (toError t) \<and>
        res' = res \<and> fl' = fl \<and> att' = att @ [(u, Inl t)]) \<or>
     (\<exists>t. outcome = Inl t \<and> \<not> n < R \<and> m' = Returned \<and>
        res' = res \<and> fl' = AList.update u (toError t) fl \<and> att' = att @ [(u, Inl t)]))"
proof (cases outcome)
  case (Inr response)
  with assms show ?thesis by (simp add: member_settled_success)
next
  case (Inl t)
  show ?thesis
  proof (cases "n < R")
    case True
    with Inl assms show ?thesis by (simp add: member_settled_retry)
  next
    case False
    then have "\<not> n + 1 \<le> R" by simp
    with False Inl assms show ?thesis
      by (simp add: member_settled_last member_attempt_stop)
  qed
qed

lemma member_resume_effect:
  assumes "member_resume env so R d u m (w, a, res, fl, att) = (m', w', a', res', fl', att')"
  shows "(res' = res \<and> fl' = fl \<and> att' = att \<and> (isReturned m' \<longrightarrow> isReturned m)) \<or>
     (\<exists>response. m' = Returned \<and> res' = AList.update u (result response) res \<and> fl' = fl \<and>
        att' = att @ [(u, Inr response)]) \<or>
     (\<exists>t. \<not> isReturned m' \<and> res' = res \<and> fl' = fl \<and> att' = att @ [(u, Inl t)]) \<or>
     (\<exists>e. m' = Returned \<and> res' = res \<and> fl' = AList.update u e fl \<and>
        (att' = att \<or> (\<exists>t. att' = att @ [(u, Inl t)])))"
proof (cases m)
  case (Attempting n started)
  show ?thesis
  proof (cases started)
    case (Settled outcome)
    with Attempting assms
    have "member_settled env so R u n outcome (w, a, res, fl, att) = (m', w', a', res', fl', att')"
      by (simp add: member_resume_settled)
    from member_settled_effect[OF this] show ?thesis by (auto simp: isReturned_def)
  next
    case (InFlight t0)
    with Attempting assms show ?thesis
      by (auto simp: member_resume_in_flight isReturned_def)
  qed
next
  case (Closing n outcome)
  with assms
  have "member_settled env so R u n (fst (scrape_cleanup env outcome w))
          (snd (scrape_cleanup env outcome w), a, res, fl, att) = (m', w', a', res', fl', att')"
    by (simp add: member_resume_closing)
  from member_settled_effect[OF this] show ?thesis by (auto simp: isReturned_def)
next
  case (Sleeping n e)
  with assms
  have "member_attempt env so R u (n + 1) (Some e) (sleep env (d * (n + 1)) w, a, res, fl, att) =
          (m', w', a', res', fl', att')"
    by (simp add: member_resume_sleeping)
  from member_attempt_effect[OF this] show ?thesis by (auto simp: isReturned_def)
next
  case Returned
  with assms show ?thesis by (simp add: member_resume_returned isReturned_def)
qed

lemma member_resume_frame:
  assumes "member_resume env so R d u m (w, a, res, fl, att) = (m', w', a', res', fl', att')"
    and "v \<noteq> u"
  shows "attemptsOf v att' = attemptsOf v att \<and> map_of fl' v = map_of fl v \<and> map_of res' v = map_of res v"
  using member_resume_effect[OF assms(1)] assms(2)
  by (auto simp: attemptsOf_def AList.update_conv')

lemma member_resume_keys:
  assumes "member_resume env so R d u m (w, a, res, fl, att) = (m', w', a', res', fl', att')"
  shows "fst ` set res \<subseteq> fst ` set res' \<and> fst ` set fl \<subseteq> fst ` set fl' \<and>
         (distinct (map fst fl) \<longrightarrow> distinct (map fst fl')) \<and>
         (\<not> isReturned m \<longrightarrow> isReturned m' \<longrightarrow> u \<in> fst ` set res' \<union> fst ` set fl')"
proof -
  have keys: "fst ` set (AList.update k v xs) = insert k (fst ` set xs)" for k :: string and v :: 'b and xs
    using AList.dom_update[of k v xs] by (simp add: dom_map_of_conv_image_fst)
  from member_resume_effect[OF assms] show ?thesis
    by (elim disjE exE conjE) (auto simp: keys AList.distinct_update isReturned_def)
qed

subsection \<open>A batch in which every attempt fails\<close>

lemma scrape_begin_in_flight:
  assumes "\<not> aborted env w" and "uncached so u a"
  shows "scrape_begin env u so w a = (InFlight (now env w), a\<lparr>backendCalls := backendCalls a @ [u]\<rparr>)"
proof -
  have lk: "(if orDefault (cache so) True
             then LRUCache_get (now env w) (cacheKey u so) (adapter_cache a)
             else (None, adapter_cache a)) = (None, adapter_cache a)"
    using assms(2) by (auto simp: uncached_def LRUCache_get_def)
  show ?thesis
    using assms(1) by (simp add: scrape_begin_def Let_def lk)
qed

lemma uncached_cache:
  "adapter_cache a' = adapter_cache a \<Longrightarrow> uncached so u a \<Longrightarrow> uncached so u a'"
  by (simp add: uncached_def)

lemma scrape_extract_failing:
  assumes "isl (fst (browse env u so w))"
  shows "\<exists>t w'. scrape_extract env u so tb (w, a) = (Inl t, w', a)"
proof -
  from assms obtain t where "fst (browse env u so w) = Inl t"
    by (cases "fst (browse env u so w)") auto
  then show ?thesis by (simp add: scrape_extract_def Let_def)
qed

lemma scrape_cleanup_failing:
  "isl outcome \<Longrightarrow> isl (fst (scrape_cleanup env outcome w))"
  by (simp add: scrape_cleanup_def split: option.splits)

lemma attemptsOf_snoc:
  "attemptsOf u (att @ [(v, x)]) = (if v = u then attemptsOf u att @ [x] else attemptsOf u att)"
  by (simp add: attemptsOf_def)

text \<open>A step of a member when every backend call fails and nothing is cancelled.\<close>

lemma resume_failing:
  assumes no_cancel: "\<And>w. \<not> aborted env w"
    and all_fail: "\<And>u so w. isl (fst (browse env u so w))"
    and inv: "member_failing R u m fl att" and unc: "uncached so u a"
    and busy: "\<not> isReturned m"
    and run: "member_resume env so R d u m (w, a, res, fl, att) = (m', w', a', res', fl', att')"
  shows "member_failing R u m' fl' att' \<and> adapter_cache a' = adapter_cache a \<and> res' = res"
proof -
  from inv obtain ts where tr: "attemptsOf u att = map Inl ts"
    and at: "case m of
           Attempting n started \<Rightarrow> (\<exists>t0. started = InFlight t0) \<and> 0 \<le> n \<and> n \<le> R \<and> length ts = nat n
         | Closing n outcome \<Rightarrow> isl outcome \<and> 0 \<le> n \<and> n \<le> R \<and> length ts = nat n
         | Sleeping n e \<Rightarrow> 0 \<le> n \<and> n < R \<and> length ts = nat n + 1
         | Returned \<Rightarrow> length ts = nat (R + 1) \<and> map_of fl u = Some (toError (last ts))"
    by (auto simp: member_failing_def)
  show ?thesis
  proof (cases m)
    case (Attempting n started)
    with at obtain t0 where s: "started = InFlight t0" and n: "0 \<le> n" "n \<le> R" "length ts = nat n"
      by auto
    from scrape_extract_failing[OF all_fail, where u = u and so = so and w = w and tb = t0 and a = a]
    obtain t w1 where ex: "scrape_extract env u so t0 (w, a) = (Inl t, w1, a)"
      by (elim exE) (rule that)
    from run have "m' = Closing n (Inl t)" "a' = a" "res' = res" "fl' = fl" "att' = att"
      by (simp_all add: Attempting s member_resume_in_flight ex)
    with tr n show ?thesis by (auto simp: member_failing_def)
  next
    case (Closing n outcome)
    with at have o: "isl outcome" and n: "0 \<le> n" "n \<le> R" "length ts = nat n" by auto
    from scrape_cleanup_failing[OF o, where env = env and w = w]
    obtain t where cl: "fst (scrape_cleanup env outcome w) = Inl t"
      by (cases "fst (scrape_cleanup env outcome w)") auto
    from run have st: "member_settled env so R u n (Inl t)
          (snd (scrape_cleanup env outcome w), a, res, fl, att) = (m', w', a', res', fl', att')"
      by (simp add: Closing member_resume_closing cl)
    have tr': "attemptsOf u (att @ [(u, Inl t)]) = map Inl (ts @ [t])"
      by (simp add: attemptsOf_snoc tr)
    show ?thesis
    proof (cases "n < R")
      case True
      with st have "m' = Sleeping n (toError t)" "a' = a" "res' = res" "fl' = fl"
        "att' = att @ [(u, Inl t)]"
        by (simp_all add: member_settled_retry)
      with tr' n True show ?thesis
        by (auto simp: member_failing_def intro!: exI[of _ "ts @ [t]"])
    next
      case False
      then have stop: "\<not> n + 1 \<le> R" by simp
      from False n have nR: "n = R" by simp
      from st False stop have "m' = Returned" "a' = a" "res' = res"
        "fl' = AList.update u (toError t) fl" "att' = att @ [(u, Inl t)]"
        by (simp_all add: member_settled_last member_attempt_stop)
      moreover have "length (ts @ [t]) = nat (R + 1)" using n nR by simp
      ultimately show ?thesis using tr'
        by (auto simp: member_failing_def AList.update_conv' intro!: exI[of _ "ts @ [t]"])
    qed
  next
    case (Sleeping n e)
    with at have n: "0 \<le> n" "n < R" "length ts = nat n + 1" by auto
    then have go: "n + 1 \<le> R" by simp
    define w1 where "w1 = sleep env (d * (n + 1)) w"
    from scrape_begin_in_flight[OF no_cancel unc, where w = w1]
    have b: "scrape_begin env u so w1 a = (InFlight (now env w1), a\<lparr>backendCalls := backendCalls a @ [u]\<rparr>)" .
    from run have "m' = Attempting (n + 1) (InFlight (now env w1))"
      "a' = a\<lparr>backendCalls := backendCalls a @ [u]\<rparr>" "res' = res" "fl' = fl" "att' = att"
      using b by (auto simp: Sleeping member_resume_sleeping w1_def member_attempt_go[OF go])
    moreover have "length ts = nat (n + 1)" using n by simp
    ultimately show ?thesis using tr n go
      by (auto simp: member_failing_def)
  next
    case Returned
    with busy show ?thesis by (simp add: isReturned_def)
  qed
qed

text \<open>The synchronous start of a window whose members cannot be answered from the cache,
  with the signal not aborted: every member's first call is in flight.\<close>

lemma start_all_in_flight:
  assumes "\<not> aborted env w" and "0 \<le> R"
  shows "\<forall>u \<in> set us. uncached so u a \<Longrightarrow>
    \<exists>a'. scrapeMany_start env so R us (w, a, res, fl, att) =
            (map (\<lambda>u. (u, Attempting 0 (InFlight (now env w)))) us, (w, a', res, fl, att)) \<and>
         adapter_cache a' = adapter_cache a \<and> backendCalls a' = backendCalls a @ us"
proof (induction us arbitrary: a)
  case Nil
  show ?case by simp
next
  case (Cons u us)
  from Cons.prems have unc: "uncached so u a" by simp
  define a1 where "a1 = a\<lparr>backendCalls := backendCalls a @ [u]\<rparr>"
  have b: "scrape_begin env u so w a = (InFlight (now env w), a1)"
    unfolding a1_def using assms(1) unc by (rule scrape_begin_in_flight)
  have first: "member_attempt env so R u 0 None (w, a, res, fl, att) =
      (Attempting 0 (InFlight (now env w)), (w, a1, res, fl, att))"
    by (simp add: member_attempt_go[OF assms(2)] b)
  have "\<forall>u \<in> set us. uncached so u a1"
    using Cons.prems by (simp add: uncached_def a1_def)
  from Cons.IH[OF this]
  obtain a' where r: "scrapeMany_start env so R us (w, a1, res, fl, att) =
            (map (\<lambda>u. (u, Attempting 0 (InFlight (now env w)))) us, (w, a', res, fl, att))"
    and ca: "adapter_cache a' = adapter_cache a1"
    and bc: "backendCalls a' = backendCalls a1 @ us" by (elim exE conjE) (rule that)
  have ca1: "adapter_cache a1 = adapter_cache a" "backendCalls a1 = backendCalls a @ [u]"
    by (simp_all add: a1_def)
  show ?case
    using ca ca1 bc by (intro exI[of _ a']) (simp add: first r Let_def)
qed

lemma member_failing_cong:
  "attemptsOf v att' = attemptsOf v att \<Longrightarrow> map_of fl' v = map_of fl v \<Longrightarrow>
   member_failing R v m fl' att' = member_failing R v m fl att"
  by (cases m) (simp_all add: member_failing_def)

text \<open>One window of distinct targets, none of them attempted before.\<close>

lemma batch_all_fail:
  assumes no_cancel: "\<And>w. \<not> aborted env w"
    and all_fail: "\<And>u so w. isl (fst (browse env u so w))"
    and R: "0 \<le> R" and dist: "distinct batch"
    and unc: "\<forall>u \<in> set batch. uncached so u a"
    and fresh: "\<forall>u \<in> set batch. attemptsOf u att = []"
  shows "\<exists>w' a' fl' att'.
      scrapeMany_batch env so R d batch (w, a, res, fl, att) = (w', a', res, fl', att') \<and>
      adapter_cache a' = adapter_cache a \<and>
      (\<forall>u \<in> set batch. member_failing R u Returned fl' att') \<and>
      (\<forall>v. v \<notin> set batch \<longrightarrow> attemptsOf v att' = attemptsOf v att \<and> map_of fl' v = map_of fl v) \<and>
      (distinct (map fst fl) \<longrightarrow> distinct (map fst fl'))"
proof -
  define I where "I = (\<lambda>ms (st :: 'a batch_state). case st of (w', a', res', fl', att') \<Rightarrow>
      map fst ms = batch \<and> res' = res \<and> adapter_cache a' = adapter_cache a \<and>
      (\<forall>j < length ms. member_failing R (fst (ms ! j)) (snd (ms ! j)) fl' att') \<and>
      (\<forall>v. v \<notin> set batch \<longrightarrow> attemptsOf v att' = attemptsOf v att \<and> map_of fl' v = map_of fl v) \<and>
      (distinct (map fst fl) \<longrightarrow> distinct (map fst fl')))"
  define P where "P = (\<lambda>st :: 'a batch_state. \<exists>w' a' fl' att'.
      st = (w', a', res, fl', att') \<and>
      adapter_cache a' = adapter_cache a \<and>
      (\<forall>u \<in> set batch. member_failing R u Returned fl' att') \<and>
      (\<forall>v. v \<notin> set batch \<longrightarrow> attemptsOf v att' = attemptsOf v att \<and> map_of fl' v = map_of fl v) \<and>
      (distinct (map fst fl) \<longrightarrow> distinct (map fst fl')))"
  from start_all_in_flight[OF no_cancel R unc, of w res fl att]
  obtain a0 where start: "scrapeMany_start env so R batch (w, a, res, fl, att) =
            (map (\<lambda>u. (u, Attempting 0 (InFlight (now env w)))) batch, (w, a0, res, fl, att))"
    and ca0: "adapter_cache a0 = adapter_cache a" by (elim exE conjE) (rule that)
  have init: "I (map (\<lambda>u. (u, Attempting 0 (InFlight (now env w)))) batch) (w, a0, res, fl, att)"
    using R fresh ca0 by (simp add: I_def member_failing_def comp_def)
  have step: "I (ms[k := (fst (ms ! k), fst (member_resume env so R d (fst (ms ! k)) (snd (ms ! k)) st))])
          (snd (member_resume env so R d (fst (ms ! k)) (snd (ms ! k)) st))"
    if inv: "I ms st" and k: "k < length ms" and busy: "\<not> isReturned (snd (ms ! k))" for ms st k
  proof -
    obtain w1 a1 res1 fl1 att1 where st: "st = (w1, a1, res1, fl1, att1)" by (cases st)
    define u where "u = fst (ms ! k)"
    define m where "m = snd (ms ! k)"
    obtain m' w' a' res' fl' att' where
      run: "member_resume env so R d u m (w1, a1, res1, fl1, att1) = (m', w', a', res', fl', att')"
      by (cases "member_resume env so R d u m (w1, a1, res1, fl1, att1)")
    from inv have names: "map fst ms = batch" and res1: "res1 = res"
      and ca1: "adapter_cache a1 = adapter_cache a"
      and members: "\<forall>j < length ms. member_failing R (fst (ms ! j)) (snd (ms ! j)) fl1 att1"
      and others: "\<forall>v. v \<notin> set batch \<longrightarrow> attemptsOf v att1 = attemptsOf v att \<and> map_of fl1 v = map_of fl v"
      and keys: "distinct (map fst fl) \<longrightarrow> distinct (map fst fl1)"
      by (simp_all add: I_def st)
    have u_in: "u \<in> set batch"
      using names k unfolding u_def by (metis length_map nth_map nth_mem)
    have unc1: "uncached so u a1"
      using unc u_in ca1 by (auto intro: uncached_cache)
    from members k have mk: "member_failing R u m fl1 att1" by (simp add: u_def m_def)
    from resume_failing[OF no_cancel all_fail mk unc1 busy[folded m_def] run]
    have mk': "member_failing R u m' fl' att'" and ca': "adapter_cache a' = adapter_cache a1"
      and res': "res' = res1" by simp_all
    have frame: "attemptsOf v att' = attemptsOf v att1 \<and> map_of fl' v = map_of fl1 v" if "v \<noteq> u" for v
      using member_resume_frame[OF run that] by simp
    have keys': "distinct (map fst fl1) \<longrightarrow> distinct (map fst fl')"
      using member_resume_keys[OF run] by simp
    have members': "member_failing R (fst (ms[k := (u, m')] ! j)) (snd (ms[k := (u, m')] ! j)) fl' att'"
      if j: "j < length ms" for j
    proof (cases "j = k")
      case True
      with k mk' show ?thesis by simp
    next
      case False
      have "fst (ms ! j) \<noteq> u"
      proof
        assume "fst (ms ! j) = u"
        then have "map fst ms ! j = map fst ms ! k" using j k by (simp add: u_def)
        moreover have "length batch = length ms" using names by (metis length_map)
        ultimately have "j = k" using dist names j k by (simp add: nth_eq_iff_index_eq)
        with False show False by simp
      qed
      from frame[OF this]
      have "member_failing R (fst (ms ! j)) (snd (ms ! j)) fl' att' =
            member_failing R (fst (ms ! j)) (snd (ms ! j)) fl1 att1"
        by (intro member_failing_cong) simp_all
      with members j False show ?thesis by simp
    qed
    have others': "attemptsOf v att' = attemptsOf v att \<and> map_of fl' v = map_of fl v"
      if "v \<notin> set batch" for v
    proof -
      from that u_in have "v \<noteq> u" by auto
      from frame[OF this] others that show ?thesis by simp
    qed
    have names': "map fst (ms[k := (u, m')]) = batch"
    proof -
      have "(map fst ms)[k := map fst ms ! k] = map fst ms" by (rule list_update_id)
      with k show ?thesis by (simp add: map_update u_def names[symmetric])
    qed
    have "I (ms[k := (u, m')]) (w', a', res', fl', att')"
      unfolding I_def using names' res' res1 ca' ca1 members' others' keys keys' by simp
    then show ?thesis by (simp add: st u_def[symmetric] m_def[symmetric] run)
  qed
  have final: "P st" if inv: "I ms st" and all: "\<forall>p \<in> set ms. isReturned (snd p)" for ms st
  proof -
    obtain w1 a1 res1 fl1 att1 where st: "st = (w1, a1, res1, fl1, att1)" by (cases st)
    from inv have names: "map fst ms = batch" and res1: "res1 = res"
      and ca1: "adapter_cache a1 = adapter_cache a"
      and members: "\<forall>j < length ms. member_failing R (fst (ms ! j)) (snd (ms ! j)) fl1 att1"
      and others: "\<forall>v. v \<notin> set batch \<longrightarrow> attemptsOf v att1 = attemptsOf v att \<and> map_of fl1 v = map_of fl v"
      and keys: "distinct (map fst fl) \<longrightarrow> distinct (map fst fl1)"
      by (simp_all add: I_def st)
    have "member_failing R u Returned fl1 att1" if "u \<in> set batch" for u
    proof -
      from that names obtain j where j: "j < length ms" and uj: "fst (ms ! j) = u"
        by (metis in_set_conv_nth length_map nth_map)
      from all j have "isReturned (snd (ms ! j))" by simp
      then have "snd (ms ! j) = Returned" by (simp add: isReturned_def split: member.splits)
      with members j uj show ?thesis by auto
    qed
    with res1 ca1 others keys show ?thesis by (simp add: P_def st)
  qed
  have "P (scrapeMany_settle env so R d (map (\<lambda>u. (u, Attempting 0 (InFlight (now env w)))) batch)
            (w, a0, res, fl, att))"
    using step final init by (rule scrapeMany_settle_invariant[where I = I and P = P])
  then show ?thesis
    by (simp add: P_def scrapeMany_batch_def start)
qed

lemma js_slice_window:
  assumes "0 \<le> i" "i < int (length xs)" "1 \<le> c"
  shows "js_slice xs i (i + c) = take (nat c) (drop (nat i) xs)"
proof (cases "i + c \<le> int (length xs)")
  case True
  with assms show ?thesis by (simp add: js_slice_def Let_def min_def)
next
  case False
  with assms have "length (drop (nat i) xs) \<le> nat c" by simp
  with assms False show ?thesis by (simp add: js_slice_def Let_def min_def)
qed

lemma scrapeMany_loop_done:
  "\<not> i < int (length urls) \<Longrightarrow> scrapeMany_loop env so conc R d urls i st = Some st"
  by (subst scrapeMany_loop.simps) (simp only: if_False)

lemma scrapeMany_loop_aborted:
  "aborted env (fst st) \<Longrightarrow> scrapeMany_loop env so conc R d urls i st = Some st"
  by (subst scrapeMany_loop.simps) (simp only: if_True if_cancel)

lemma scrapeMany_loop_window:
  "i < int (length urls) \<Longrightarrow> \<not> aborted env (fst st) \<Longrightarrow>
   scrapeMany_batch env so R d (js_slice urls i (i + conc)) st = (w1, rest) \<Longrightarrow>
   scrapeMany_loop env so conc R d urls i st =
     scrapeMany_loop env so conc R d urls (i + conc)
       (if i + conc < int (length urls) then sleep env (getRandomDelay env 500 1500 w1) w1 else w1, rest)"
  by (subst scrapeMany_loop.simps) (simp only: if_True if_False prod.case)

lemma loop_all_fail:
  assumes no_cancel: "\<And>w. \<not> aborted env w"
    and all_fail: "\<And>u so w. isl (fst (browse env u so w))"
    and R: "0 \<le> R" and conc: "1 \<le> conc" and dist: "distinct urls"
  shows "0 \<le> i \<Longrightarrow>
    \<forall>u \<in> set (drop (nat i) urls). uncached so u a \<and> attemptsOf u att = [] \<Longrightarrow>
    \<exists>w' a' fl' att'.
      scrapeMany_loop env so conc R d urls i (w, a, res, fl, att) = Some (w', a', res, fl', att') \<and>
      (\<forall>u \<in> set (drop (nat i) urls). member_failing R u Returned fl' att') \<and>
      (\<forall>v. v \<notin> set (drop (nat i) urls) \<longrightarrow>
           attemptsOf v att' = attemptsOf v att \<and> map_of fl' v = map_of fl v) \<and>
      (distinct (map fst fl) \<longrightarrow> distinct (map fst fl'))"
proof (induction "length urls - nat i" arbitrary: i w a fl att rule: less_induct)
  case less
  show ?case
  proof (cases "i < int (length urls)")
    case False
    with less.prems(1) have dr: "drop (nat i) urls = []" by simp
    show ?thesis
      unfolding dr
      by (intro exI[of _ w] exI[of _ a] exI[of _ fl] exI[of _ att])
         (simp add: scrapeMany_loop_done[OF False])
  next
    case True
    define us1 where "us1 = take (nat conc) (drop (nat i) urls)"
    define us2 where "us2 = drop (nat (i + conc)) urls"
    have split: "drop (nat i) urls = us1 @ us2"
    proof -
      have "nat (i + conc) = nat conc + nat i" using less.prems(1) conc by (simp add: nat_add_distrib)
      then have "us2 = drop (nat conc) (drop (nat i) urls)" by (simp add: us2_def)
      then show ?thesis unfolding us1_def by (simp only: append_take_drop_id)
    qed
    from dist have "distinct (drop (nat i) urls)" by simp
    then have d1: "distinct us1" and d2: "distinct us2" and disj: "set us1 \<inter> set us2 = {}"
      unfolding split by simp_all
    have slice: "js_slice urls i (i + conc) = us1"
      unfolding us1_def using less.prems(1) True conc by (rule js_slice_window)
    have unc1: "\<forall>u \<in> set us1. uncached so u a" and fresh1: "\<forall>u \<in> set us1. attemptsOf u att = []"
      using less.prems(2) split by simp_all
    from batch_all_fail[OF no_cancel all_fail R d1 unc1 fresh1, of d w res fl]
    obtain w1 a1 fl1 att1 where
      run1: "scrapeMany_batch env so R d us1 (w, a, res, fl, att) = (w1, a1, res, fl1, att1)"
      and ca1: "adapter_cache a1 = adapter_cache a"
      and fin1: "\<forall>u \<in> set us1. member_failing R u Returned fl1 att1"
      and frame1: "\<forall>v. v \<notin> set us1 \<longrightarrow> attemptsOf v att1 = attemptsOf v att \<and> map_of fl1 v = map_of fl v"
      and keys1: "distinct (map fst fl) \<longrightarrow> distinct (map fst fl1)"
      by (elim exE conjE) (rule that)
    define w2 where "w2 = (if i + conc < int (length urls)
        then sleep env (getRandomDelay env 500 1500 w1) w1 else w1)"
    have step: "scrapeMany_loop env so conc R d urls i (w, a, res, fl, att) =
        scrapeMany_loop env so conc R d urls (i + conc) (w2, a1, res, fl1, att1)"
      unfolding w2_def
      by (rule scrapeMany_loop_window[OF True]) (simp_all add: no_cancel slice run1)
    have smaller: "length urls - nat (i + conc) < length urls - nat i"
      using True less.prems(1) conc by arith
    have nonneg: "0 \<le> i + conc" using less.prems(1) conc by simp
    have pre2: "\<forall>u \<in> set (drop (nat (i + conc)) urls). uncached so u a1 \<and> attemptsOf u att1 = []"
    proof
      fix u assume u: "u \<in> set (drop (nat (i + conc)) urls)"
      then have u2: "u \<in> set us2" by (simp add: us2_def)
      with disj have "u \<notin> set us1" by auto
      with frame1 have "attemptsOf u att1 = attemptsOf u att" by simp
      moreover from u2 less.prems(2) split have "uncached so u a" "attemptsOf u att = []" by simp_all
      ultimately show "uncached so u a1 \<and> attemptsOf u att1 = []"
        using ca1 by (auto intro: uncached_cache)
    qed
    from less.hyps[OF smaller nonneg pre2, of w2 fl1]
    obtain w' a' fl' att' where
      run2: "scrapeMany_loop env so conc R d urls (i + conc) (w2, a1, res, fl1, att1) =
          Some (w', a', res, fl', att')"
      and fin2: "\<forall>u \<in> set us2. member_failing R u Returned fl' att'"
      and frame2: "\<forall>v. v \<notin> set us2 \<longrightarrow> attemptsOf v att' = attemptsOf v att1 \<and> map_of fl' v = map_of fl1 v"
      and keys2: "distinct (map fst fl1) \<longrightarrow> distinct (map fst fl')"
      unfolding us2_def[symmetric] by (elim exE conjE) (rule that)
    have finished: "member_failing R u Returned fl' att'" if "u \<in> set (us1 @ us2)" for u
    proof (cases "u \<in> set us2")
      case True
      with fin2 show ?thesis by simp
    next
      case False
      with that have u1: "u \<in> set us1" by simp
      from frame2 False have "member_failing R u Returned fl' att' = member_failing R u Returned fl1 att1"
        by (intro member_failing_cong) simp_all
      with fin1 u1 show ?thesis by simp
    qed
    show ?thesis
      unfolding step run2 split
      using finished frame1 frame2 keys1 keys2
      by (intro exI[of _ w'] exI[of _ a'] exI[of _ fl'] exI[of _ att']) simp
  qed
qed

text \<open>
  C2. For every list of pairwise distinct targets, none of which can be answered from
  the cache, a concurrency of at least 1 and a retry count of at least 0: if no
  cancellation occurs and every backend call fails, \<open>scrapeMany\<close> returns (it raises
  nothing), its results map is empty, its failure map has exactly one entry per target,
  every target has had exactly \<open>retries + 1\<close> attempts, all failed, and its entry holds
  the error of the last of them. This holds for every order in which the members of a
  window are resumed.
\<close>

theorem scrapeMany_all_fail:
  assumes dist: "distinct urls"
    and conc: "1 \<le> orDefault (concurrency opts) 3"
    and R: "0 \<le> orDefault (retries opts) 2"
    and no_cancel: "\<forall>w. \<not> aborted env w"
    and all_fail: "\<forall>u so w. isl (fst (browse env u so w))"
    and unc: "\<forall>u \<in> set urls. uncached (ScrapeOptions.truncate opts) u a"
  shows "\<exists>r att w' a'.
      scrapeMany env urls opts (w, a) = Some (r, att, w', a') \<and>
      results r = [] \<and>
      length (failed r) = length urls \<and> fst ` set (failed r) = set urls \<and>
      (\<forall>u \<in> set urls. \<exists>ts.
          map snd (filter (\<lambda>p. fst p = u) att) = map Inl ts \<and>
          length ts = nat (orDefault (retries opts) 2 + 1) \<and>
          map_of (failed r) u = Some (toError (last ts)))"
proof -
  have nc: "\<And>w. \<not> aborted env w" using no_cancel by simp
  have af: "\<And>u so w. isl (fst (browse env u so w))" using all_fail by simp
  have pre: "\<forall>u \<in> set (drop (nat 0) urls).
      uncached (ScrapeOptions.truncate opts) u a \<and> attemptsOf u [] = []"
    using unc by (simp add: attemptsOf_def)
  from loop_all_fail[OF nc af R conc dist _ pre, of "orDefault (retryDelay opts) 1000" w "[]" "[]"]
  obtain w' a' fl' att' where
    run: "scrapeMany_loop env (ScrapeOptions.truncate opts) (orDefault (concurrency opts) 3)
        (orDefault (retries opts) 2) (orDefault (retryDelay opts) 1000) urls 0 (w, a, [], [], []) =
        Some (w', a', [], fl', att')"
    and each: "\<forall>u \<in> set urls. member_failing (orDefault (retries opts) 2) u Returned fl' att'"
    and others: "\<forall>v. v \<notin> set urls \<longrightarrow> map_of fl' v = None"
    and keys: "distinct (map fst fl')"
    by auto
  define r where "r = \<lparr>results = [], failed = fl', totalDuration = now env w' - now env w\<rparr>"
  have ret: "scrapeMany env urls opts (w, a) = Some (r, att', w', a')"
    by (simp add: scrapeMany_def run r_def)
  have per: "\<forall>u \<in> set urls. \<exists>ts.
          map snd (filter (\<lambda>p. fst p = u) att') = map Inl ts \<and>
          length ts = nat (orDefault (retries opts) 2 + 1) \<and>
          map_of (failed r) u = Some (toError (last ts))"
    using each by (simp add: member_failing_def attemptsOf_def r_def)
  have dom: "fst ` set (failed r) = set urls"
  proof -
    have "dom (map_of fl') = set urls"
    proof (rule set_eqI)
      fix v
      show "v \<in> dom (map_of fl') \<longleftrightarrow> v \<in> set urls"
      proof (cases "v \<in> set urls")
        case True
        with each have "\<exists>e. map_of fl' v = Some e" by (auto simp: member_failing_def)
        with True show ?thesis by auto
      next
        case False
        with others show ?thesis by auto
      qed
    qed
    then show ?thesis by (simp add: dom_map_of_conv_image_fst r_def)
  qed
  have len: "length (failed r) = length urls"
  proof -
    have "length fl' = length (map fst fl')" by simp
    also have "\<dots> = card (set (map fst fl'))" using keys by (simp only: distinct_card)
    also have "\<dots> = card (set urls)" using dom by (simp add: r_def)
    also have "\<dots> = length urls" using dist by (rule distinct_card)
    finally show ?thesis by (simp add: r_def)
  qed
  have res: "results r = []" by (simp add: r_def)
  from ret res len dom per show ?thesis by blast
qed

theorem scrapeMany_all_fail_witness:
  "distinct [''a'', ''b'', ''c''] \<and>
   (\<forall>w. \<not> aborted (exampleEnv UNIV None) w) \<and>
   (\<forall>u so w. isl (fst (browse (exampleEnv UNIV None) u so w))) \<and>
   uncached (ScrapeOptions.truncate (batchOptions 2 1)) ''a'' createPlaywrightScraperAdapter \<and>
   uncached (ScrapeOptions.truncate (batchOptions 2 1)) ''b'' createPlaywrightScraperAdapter \<and>
   uncached (ScrapeOptions.truncate (batchOptions 2 1)) ''c'' createPlaywrightScraperAdapter \<and>
   (\<exists>r att w' a'.
      scrapeMany (exampleEnv UNIV None) [''a'', ''b'', ''c''] (batchOptions 2 1)
        (0, createPlaywrightScraperAdapter) = Some (r, att, w', a') \<and>
      results r = [] \<and> length (failed r) = 3 \<and> fst ` set (failed r) = {''a'', ''b'', ''c''})"
proof -
  have h1: "\<forall>w. \<not> aborted (exampleEnv UNIV None) w" by (simp add: exampleEnv_def)
  have h2: "\<forall>u so w. isl (fst (browse (exampleEnv UNIV None) u so w))" by (simp add: exampleEnv_def)
  have h3: "\<forall>u \<in> set [''a'', ''b'', ''c''].
      uncached (ScrapeOptions.truncate (batchOptions 2 1)) u createPlaywrightScraperAdapter"
    by (simp add: uncached_def createPlaywrightScraperAdapter_def newPlaywrightScraperAdapter_def)
  have h4: "distinct [''a'', ''b'', ''c'']" by simp
  have h5: "1 \<le> orDefault (concurrency (batchOptions 2 1)) 3"
    by (simp add: batchOptions_def orDefault_def ScrapeOptions.extend_def BatchScrapeOptions.fields_def)
  have h6: "0 \<le> orDefault (retries (batchOptions 2 1)) 2"
    by (simp add: batchOptions_def orDefault_def ScrapeOptions.extend_def BatchScrapeOptions.fields_def)
  from scrapeMany_all_fail[OF h4 h5 h6 h1 h2 h3, of 0]
  show ?thesis using h1 h2 h3 by auto
qed

text \<open>A target listed twice has one entry in the failure map: two targets, one entry,
  after four attempts on it.\<close>

theorem scrapeMany_duplicate_targets_counterexample:
  "(\<forall>w. \<not> aborted (exampleEnv UNIV None) w) \<and>
   (\<forall>u so w. isl (fst (browse (exampleEnv UNIV None) u so w))) \<and>
   map_option (\<lambda>(r, att, w, a). (results r, failed r, map fst att))
     (scrapeMany (exampleEnv UNIV None) [''a'', ''a''] (batchOptions 2 1)
        (0, createPlaywrightScraperAdapter)) =
     Some ([], [(''a'', Error ''net::ERR_CONNECTION_REFUSED'')], [''a'', ''a'', ''a'', ''a''])"
proof (intro conjI)
  show "\<forall>w. \<not> aborted (exampleEnv UNIV None) w" by (simp add: exampleEnv_def)
  show "\<forall>u so w. isl (fst (browse (exampleEnv UNIV None) u so w))" by (simp add: exampleEnv_def)
  show "map_option (\<lambda>(r, att, w, a). (results r, failed r, map fst att))
     (scrapeMany (exampleEnv UNIV None) [''a'', ''a''] (batchOptions 2 1)
        (0, createPlaywrightScraperAdapter)) =
     Some ([], [(''a'', Error ''net::ERR_CONNECTION_REFUSED'')], [''a'', ''a'', ''a'', ''a''])"
    by code_simp
qed

subsection \<open>Cancellation of a batch\<close>

lemma scrape_extract_through:
  assumes "\<not> isl (fst (browse env u so w))"
  shows "\<exists>response w' a'. scrape_extract env u so tb (w, a) = (Inr response, w', a') \<and>
           backendCalls a' = backendCalls a"
proof -
  from assms obtain raw where "fst (browse env u so w) = Inr raw"
    by (cases "fst (browse env u so w)") auto
  then show ?thesis by (simp add: scrape_extract_def Let_def)
qed

lemma scrape_cleanup_through:
  "fst (teardown env w) = None \<Longrightarrow> fst (scrape_cleanup env outcome w) = outcome"
  by (simp add: scrape_cleanup_def)

lemma recorded_kept:
  "recorded v res att \<Longrightarrow>
   recorded v (AList.update u (result response) res) (att @ [(u, Inr response)])"
  by (cases "v = u") (auto simp: recorded_def AList.update_conv')

text \<open>A step of a member when every call gets through. The signal does not occur.\<close>

lemma resume_through:
  assumes ok: "\<And>u so w. \<not> isl (fst (browse env u so w))"
    and td: "\<And>w. fst (teardown env w) = None"
    and inv: "member_through u m res att" and busy: "\<not> isReturned m"
    and run: "member_resume env so R d u m (w, a, res, fl, att) = (m', w', a', res', fl', att')"
  shows "member_through u m' res' att' \<and> fl' = fl \<and> backendCalls a' = backendCalls a \<and>
         ((res' = res \<and> att' = att) \<or>
          (\<exists>response. res' = AList.update u (result response) res \<and>
             att' = att @ [(u, Inr response)]))"
proof (cases m)
  case (Attempting n started)
  with inv obtain t0 where s: "started = InFlight t0" by (auto simp: member_through_def)
  from scrape_extract_through[OF ok, where u = u and so = so and w = w and tb = t0 and a = a]
  obtain response w1 a1 where ex: "scrape_extract env u so t0 (w, a) = (Inr response, w1, a1)"
    and bc: "backendCalls a1 = backendCalls a" by (elim exE conjE) (rule that)
  from run have "m' = Closing n (Inr response)" "a' = a1" "res' = res" "fl' = fl" "att' = att"
    by (simp_all add: Attempting s member_resume_in_flight ex)
  with bc show ?thesis by (simp add: member_through_def)
next
  case (Closing n outcome)
  with inv obtain response where o: "outcome = Inr response"
    by (cases outcome) (auto simp: member_through_def)
  from run have "m' = Returned" "a' = a" "res' = AList.update u (result response) res" "fl' = fl"
    "att' = att @ [(u, Inr response)]"
    by (simp_all add: Closing o member_resume_closing scrape_cleanup_through[OF td]
          member_settled_success)
  then show ?thesis
    by (auto simp: member_through_def recorded_def AList.update_conv')
next
  case (Sleeping n e)
  with inv show ?thesis by (simp add: member_through_def)
next
  case Returned
  with busy show ?thesis by (simp add: isReturned_def)
qed

lemma batch_all_through:
  assumes start: "\<not> aborted env w" and R: "0 \<le> R"
    and unc: "\<forall>u \<in> set batch. uncached so u a"
    and ok: "\<And>u so w. \<not> isl (fst (browse env u so w))"
    and td: "\<And>w. fst (teardown env w) = None"
  shows "\<exists>w' a' res' att'.
      scrapeMany_batch env so R d batch (w, a, res, fl, att) = (w', a', res', fl, att') \<and>
      backendCalls a' = backendCalls a @ batch \<and>
      (\<forall>u \<in> set batch. \<exists>response.
          (u, Inr response) \<in> set att' \<and> map_of res' u = Some (result response)) \<and>
      (\<forall>p \<in> set att'. p \<in> set att \<or> \<not> isl (snd p))"
proof -
  define I where "I = (\<lambda>ms (st :: 'a batch_state). case st of (w', a', res', fl', att') \<Rightarrow>
      map fst ms = batch \<and> fl' = fl \<and> backendCalls a' = backendCalls a @ batch \<and>
      (\<forall>j < length ms. member_through (fst (ms ! j)) (snd (ms ! j)) res' att') \<and>
      (\<forall>p \<in> set att'. p \<in> set att \<or> \<not> isl (snd p)))"
  define P where "P = (\<lambda>st :: 'a batch_state. \<exists>w' a' res' att'.
      st = (w', a', res', fl, att') \<and>
      backendCalls a' = backendCalls a @ batch \<and>
      (\<forall>u \<in> set batch. recorded u res' att') \<and>
      (\<forall>p \<in> set att'. p \<in> set att \<or> \<not> isl (snd p)))"
  from start_all_in_flight[OF start R unc, of res fl att]
  obtain a0 where begun: "scrapeMany_start env so R batch (w, a, res, fl, att) =
            (map (\<lambda>u. (u, Attempting 0 (InFlight (now env w)))) batch, (w, a0, res, fl, att))"
    and bc0: "backendCalls a0 = backendCalls a @ batch" by (elim exE conjE) (rule that)
  have init: "I (map (\<lambda>u. (u, Attempting 0 (InFlight (now env w)))) batch) (w, a0, res, fl, att)"
    using bc0 by (simp add: I_def member_through_def comp_def)
  have step: "I (ms[k := (fst (ms ! k), fst (member_resume env so R d (fst (ms ! k)) (snd (ms ! k)) st))])
          (snd (member_resume env so R d (fst (ms ! k)) (snd (ms ! k)) st))"
    if inv: "I ms st" and k: "k < length ms" and busy: "\<not> isReturned (snd (ms ! k))" for ms st k
  proof -
    obtain w1 a1 res1 fl1 att1 where st: "st = (w1, a1, res1, fl1, att1)" by (cases st)
    define u where "u = fst (ms ! k)"
    define m where "m = snd (ms ! k)"
    obtain m' w' a' res' fl' att' where
      run: "member_resume env so R d u m (w1, a1, res1, fl1, att1) = (m', w', a', res', fl', att')"
      by (cases "member_resume env so R d u m (w1, a1, res1, fl1, att1)")
    from inv have names: "map fst ms = batch" and fl1: "fl1 = fl"
      and bc1: "backendCalls a1 = backendCalls a @ batch"
      and members: "\<forall>j < length ms. member_through (fst (ms ! j)) (snd (ms ! j)) res1 att1"
      and trace: "\<forall>p \<in> set att1. p \<in> set att \<or> \<not> isl (snd p)"
      by (simp_all add: I_def st)
    from members k have mk: "member_through u m res1 att1" by (simp add: u_def m_def)
    from resume_through[OF ok td mk busy[folded m_def] run]
    have mk': "member_through u m' res' att'" and fl': "fl' = fl1"
      and bc': "backendCalls a' = backendCalls a1"
      and eff: "(res' = res1 \<and> att' = att1) \<or>
          (\<exists>response. res' = AList.update u (result response) res1 \<and>
             att' = att1 @ [(u, Inr response)])"
      by simp_all
    have kept: "recorded v res' att'" if "recorded v res1 att1" for v
      using eff that by (auto intro: recorded_kept)
    have members': "member_through (fst (ms[k := (u, m')] ! j)) (snd (ms[k := (u, m')] ! j)) res' att'"
      if j: "j < length ms" for j
    proof (cases "j = k")
      case True
      with k mk' show ?thesis by simp
    next
      case False
      from members j have "member_through (fst (ms ! j)) (snd (ms ! j)) res1 att1" by simp
      then have "member_through (fst (ms ! j)) (snd (ms ! j)) res' att'"
        using kept by (cases "snd (ms ! j)") (simp_all add: member_through_def)
      with False show ?thesis by simp
    qed
    have trace': "\<forall>p \<in> set att'. p \<in> set att \<or> \<not> isl (snd p)"
      using eff trace by auto
    have names': "map fst (ms[k := (u, m')]) = batch"
    proof -
      have "(map fst ms)[k := map fst ms ! k] = map fst ms" by (rule list_update_id)
      with k show ?thesis by (simp add: map_update u_def names[symmetric])
    qed
    have "I (ms[k := (u, m')]) (w', a', res', fl', att')"
      unfolding I_def using names' fl' fl1 bc' bc1 members' trace' by simp
    then show ?thesis by (simp add: st u_def[symmetric] m_def[symmetric] run)
  qed
  have final: "P st" if inv: "I ms st" and all: "\<forall>p \<in> set ms. isReturned (snd p)" for ms st
  proof -
    obtain w1 a1 res1 fl1 att1 where st: "st = (w1, a1, res1, fl1, att1)" by (cases st)
    from inv have names: "map fst ms = batch" and fl1: "fl1 = fl"
      and bc1: "backendCalls a1 = backendCalls a @ batch"
      and members: "\<forall>j < length ms. member_through (fst (ms ! j)) (snd (ms ! j)) res1 att1"
      and trace: "\<forall>p \<in> set att1. p \<in> set att \<or> \<not> isl (snd p)"
      by (simp_all add: I_def st)
    have "recorded u res1 att1" if "u \<in> set batch" for u
    proof -
      from that names obtain j where j: "j < length ms" and uj: "fst (ms ! j) = u"
        by (metis in_set_conv_nth length_map nth_map)
      from all j have "isReturned (snd (ms ! j))" by simp
      then have "snd (ms ! j) = Returned" by (simp add: isReturned_def split: member.splits)
      with members j uj show ?thesis by (auto simp: member_through_def)
    qed
    with fl1 bc1 trace show ?thesis by (simp add: P_def st)
  qed
  have "P (scrapeMany_settle env so R d (map (\<lambda>u. (u, Attempting 0 (InFlight (now env w)))) batch)
            (w, a0, res, fl, att))"
    using step final init by (rule scrapeMany_settle_invariant[where I = I and P = P])
  then show ?thesis
    by (simp add: P_def scrapeMany_batch_def begun recorded_def)
qed

lemma start_none_returned:
  assumes "0 \<le> R"
  shows "\<forall>p \<in> set (fst (scrapeMany_start env so R us st)). \<not> isReturned (snd p)"
proof (induction us arbitrary: st)
  case Nil
  show ?case by simp
next
  case (Cons u us)
  obtain w a res fl att where st: "st = (w, a, res, fl, att)" by (cases st)
  show ?case
    using Cons.IH assms by (simp add: Let_def st member_attempt_go isReturned_def)
qed

lemma start_names: "map fst (fst (scrapeMany_start env so R us st)) = us"
  by (induction us arbitrary: st) (simp_all add: Let_def)

text \<open>No member is dropped, in any environment.\<close>

lemma batch_settles_every_member:
  assumes R: "0 \<le> R"
    and run: "scrapeMany_batch env so R d batch st = (w', a', res', fl', att')"
  shows "\<forall>u \<in> set batch. u \<in> fst ` set res' \<union> fst ` set fl'"
proof -
  define I where "I = (\<lambda>ms (st :: 'a batch_state). case st of (w1, a1, res1, fl1, att1) \<Rightarrow>
      map fst ms = batch \<and>
      (\<forall>j < length ms. isReturned (snd (ms ! j)) \<longrightarrow> fst (ms ! j) \<in> fst ` set res1 \<union> fst ` set fl1))"
  define P where "P = (\<lambda>st :: 'a batch_state. case st of (w1, a1, res1, fl1, att1) \<Rightarrow>
      \<forall>u \<in> set batch. u \<in> fst ` set res1 \<union> fst ` set fl1)"
  define begun where "begun = scrapeMany_start env so R batch st"
  have init: "I (fst begun) (snd begun)"
  proof -
    obtain w1 a1 res1 fl1 att1 where s: "snd begun = (w1, a1, res1, fl1, att1)" by (cases "snd begun")
    from start_none_returned[OF R, of env so batch st]
    have "\<forall>j < length (fst begun). \<not> isReturned (snd (fst begun ! j))"
      by (simp add: begun_def)
    then show ?thesis by (simp add: I_def s begun_def start_names)
  qed
  have step: "I (ms[k := (fst (ms ! k), fst (member_resume env so R d (fst (ms ! k)) (snd (ms ! k)) st))])
          (snd (member_resume env so R d (fst (ms ! k)) (snd (ms ! k)) st))"
    if inv: "I ms st" and k: "k < length ms" and busy: "\<not> isReturned (snd (ms ! k))" for ms st k
  proof -
    obtain w1 a1 res1 fl1 att1 where st: "st = (w1, a1, res1, fl1, att1)" by (cases st)
    define u where "u = fst (ms ! k)"
    define m where "m = snd (ms ! k)"
    obtain m' w2 a2 res2 fl2 att2 where
      run: "member_resume env so R d u m (w1, a1, res1, fl1, att1) = (m', w2, a2, res2, fl2, att2)"
      by (cases "member_resume env so R d u m (w1, a1, res1, fl1, att1)")
    from inv have names: "map fst ms = batch"
      and members: "\<forall>j < length ms. isReturned (snd (ms ! j)) \<longrightarrow>
                        fst (ms ! j) \<in> fst ` set res1 \<union> fst ` set fl1"
      by (simp_all add: I_def st)
    from member_resume_keys[OF run] busy
    have mono: "fst ` set res1 \<subseteq> fst ` set res2" "fst ` set fl1 \<subseteq> fst ` set fl2"
      and new: "isReturned m' \<longrightarrow> u \<in> fst ` set res2 \<union> fst ` set fl2"
      by (simp_all add: m_def)
    have members': "isReturned (snd (ms[k := (u, m')] ! j)) \<longrightarrow>
        fst (ms[k := (u, m')] ! j) \<in> fst ` set res2 \<union> fst ` set fl2" if j: "j < length ms" for j
    proof (cases "j = k")
      case True
      with k new show ?thesis by simp
    next
      case False
      show ?thesis
      proof
        assume "isReturned (snd (ms[k := (u, m')] ! j))"
        with False have "isReturned (snd (ms ! j))" by simp
        with members j have "fst (ms ! j) \<in> fst ` set res1 \<union> fst ` set fl1" by simp
        with mono have "fst (ms ! j) \<in> fst ` set res2 \<union> fst ` set fl2" by blast
        with False show "fst (ms[k := (u, m')] ! j) \<in> fst ` set res2 \<union> fst ` set fl2" by simp
      qed
    qed
    have names': "map fst (ms[k := (u, m')]) = batch"
    proof -
      have "(map fst ms)[k := map fst ms ! k] = map fst ms" by (rule list_update_id)
      with k show ?thesis by (simp add: map_update u_def names[symmetric])
    qed
    have "I (ms[k := (u, m')]) (w2, a2, res2, fl2, att2)"
      unfolding I_def using names' members' by simp
    then show ?thesis by (simp add: st u_def[symmetric] m_def[symmetric] run)
  qed
  have final: "P st" if inv: "I ms st" and all: "\<forall>p \<in> set ms. isReturned (snd p)" for ms st
  proof -
    obtain w1 a1 res1 fl1 att1 where st: "st = (w1, a1, res1, fl1, att1)" by (cases st)
    from inv have names: "map fst ms = batch"
      and members: "\<forall>j < length ms. isReturned (snd (ms ! j)) \<longrightarrow>
                        fst (ms ! j) \<in> fst ` set res1 \<union> fst ` set fl1"
      by (simp_all add: I_def st)
    have "u \<in> fst ` set res1 \<union> fst ` set fl1" if "u \<in> set batch" for u
    proof -
      from that names obtain j where j: "j < length ms" and uj: "fst (ms ! j) = u"
        by (metis in_set_conv_nth length_map nth_map)
      from all j have "isReturned (snd (ms ! j))" by simp
      with members j uj show ?thesis by auto
    qed
    then show ?thesis by (simp add: P_def st)
  qed
  have "P (scrapeMany_settle env so R d (fst begun) (snd begun))"
    using step final init by (rule scrapeMany_settle_invariant[where I = I and P = P])
  then show ?thesis
    using run by (simp add: P_def scrapeMany_batch_def begun_def Let_def)
qed

text \<open>
  C3. If the signal is aborted when \<open>scrapeMany\<close> starts, it returns with no results
  and no failures and nothing has been done: the world and the adapter, its record of
  backend calls included, are as they were. At the top of any window, an aborted signal
  ends the loop with the state as it is: no later window starts, and what the earlier
  windows recorded stays; when the signal is found aborted at the top of the window
  that would follow a window that has run, \<open>scrapeMany\<close> ends with exactly what that
  window left. A window that has started runs to its end, whatever the signal does
  meanwhile and in whatever order its members are resumed. With \<open>0 <= retries\<close> every
  member of it ends in the results map or in the failure map: none is dropped. And
  when the window starts with the signal not aborted and no member answerable from the
  cache, and the browser work and the \<open>finally\<close> block of every call get through, then
  one backend call is made for each member, in the order of the window, every member is
  recorded in the results map with the result of an attempt that succeeded, no attempt
  of the window fails, and the failure map is as it was.
\<close>

theorem scrapeMany_cancellation:
  "(aborted env w \<longrightarrow>
      scrapeMany env urls opts (w, a) =
        Some (\<lparr>results = [], failed = [], totalDuration = 0\<rparr>, [], w, a)) \<and>
   (aborted env (fst st) \<longrightarrow> scrapeMany_loop env so conc R d urls i st = Some st) \<and>
   (k < int (length urls) \<and> \<not> aborted env (fst sb) \<longrightarrow>
      (case scrapeMany_batch env so R d (js_slice urls k (k + conc)) sb of
         (w1, rest) \<Rightarrow>
           (let w2 = (if k + conc < int (length urls)
                      then sleep env (getRandomDelay env 500 1500 w1) w1 else w1)
            in aborted env w2 \<longrightarrow>
                 scrapeMany_loop env so conc R d urls k sb = Some (w2, rest)))) \<and>
   (0 \<le> R \<longrightarrow>
      (case scrapeMany_batch env so R d batch sb of
         (w', a', res', fl', att') \<Rightarrow> \<forall>u \<in> set batch. u \<in> fst ` set res' \<union> fst ` set fl')) \<and>
   (\<not> aborted env wm \<and> 0 \<le> R \<and> (\<forall>u \<in> set batch. uncached so u am) \<and>
    (\<forall>u so w. \<not> isl (fst (browse env u so w))) \<and> (\<forall>w. fst (teardown env w) = None) \<longrightarrow>
      (\<exists>w' a' res' att'.
         scrapeMany_batch env so R d batch (wm, am, res, fl, att) = (w', a', res', fl, att') \<and>
         backendCalls a' = backendCalls am @ batch \<and>
         (\<forall>u \<in> set batch. \<exists>response.
             (u, Inr response) \<in> set att' \<and> map_of res' u = Some (result response)) \<and>
         (\<forall>p \<in> set att'. p \<in> set att \<or> \<not> isl (snd p))))"
proof (intro conjI impI)
  assume ab: "aborted env w"
  have "scrapeMany_loop env (ScrapeOptions.truncate opts) (orDefault (concurrency opts) 3)
          (orDefault (retries opts) 2) (orDefault (retryDelay opts) 1000) urls 0 (w, a, [], [], [])
        = Some (w, a, [], [], [])"
    by (rule scrapeMany_loop_aborted) (simp add: ab)
  then show "scrapeMany env urls opts (w, a) =
        Some (\<lparr>results = [], failed = [], totalDuration = 0\<rparr>, [], w, a)"
    by (simp add: scrapeMany_def)
next
  assume "aborted env (fst st)"
  then show "scrapeMany_loop env so conc R d urls i st = Some st"
    by (rule scrapeMany_loop_aborted)
next
  assume h: "k < int (length urls) \<and> \<not> aborted env (fst sb)"
  obtain w1 rest where b: "scrapeMany_batch env so R d (js_slice urls k (k + conc)) sb = (w1, rest)"
    by (cases "scrapeMany_batch env so R d (js_slice urls k (k + conc)) sb")
  define w2 where "w2 = (if k + conc < int (length urls)
                      then sleep env (getRandomDelay env 500 1500 w1) w1 else w1)"
  have "scrapeMany_loop env so conc R d urls k sb = Some (w2, rest)" if "aborted env w2"
  proof -
    from h b have "scrapeMany_loop env so conc R d urls k sb =
        scrapeMany_loop env so conc R d urls (k + conc) (w2, rest)"
      unfolding w2_def by (intro scrapeMany_loop_window) simp_all
    also have "\<dots> = Some (w2, rest)"
      by (rule scrapeMany_loop_aborted) (simp add: that)
    finally show ?thesis .
  qed
  then show "case scrapeMany_batch env so R d (js_slice urls k (k + conc)) sb of
         (w1, rest) \<Rightarrow>
           (let w2 = (if k + conc < int (length urls)
                      then sleep env (getRandomDelay env 500 1500 w1) w1 else w1)
            in aborted env w2 \<longrightarrow>
                 scrapeMany_loop env so conc R d urls k sb = Some (w2, rest))"
    by (simp add: b w2_def Let_def)
next
  assume R: "0 \<le> R"
  obtain w' a' res' fl' att' where
    b: "scrapeMany_batch env so R d batch sb = (w', a', res', fl', att')"
    by (cases "scrapeMany_batch env so R d batch sb")
  from batch_settles_every_member[OF R b]
  show "case scrapeMany_batch env so R d batch sb of
         (w', a', res', fl', att') \<Rightarrow> \<forall>u \<in> set batch. u \<in> fst ` set res' \<union> fst ` set fl'"
    by (simp add: b)
next
  assume h: "\<not> aborted env wm \<and> 0 \<le> R \<and> (\<forall>u \<in> set batch. uncached so u am) \<and>
    (\<forall>u so w. \<not> isl (fst (browse env u so w))) \<and> (\<forall>w. fst (teardown env w) = None)"
  then have 1: "\<not> aborted env wm" and 2: "0 \<le> R" and 3: "\<forall>u \<in> set batch. uncached so u am"
    and 4: "\<And>u so w. \<not> isl (fst (browse env u so w))" and 5: "\<And>w. fst (teardown env w) = None"
    by simp_all
  show "\<exists>w' a' res' att'.
         scrapeMany_batch env so R d batch (wm, am, res, fl, att) = (w', a', res', fl, att') \<and>
         backendCalls a' = backendCalls am @ batch \<and>
         (\<forall>u \<in> set batch. \<exists>response.
             (u, Inr response) \<in> set att' \<and> map_of res' u = Some (result response)) \<and>
         (\<forall>p \<in> set att'. p \<in> set att \<or> \<not> isl (snd p))"
    using 1 2 3 4 5 by (rule batch_all_through)
qed

theorem scrapeMany_cancellation_witness:
  "aborted (exampleEnv {} (Some 20)) 20 \<and>
   scrapeMany (exampleEnv {} (Some 20)) [''a'', ''b'', ''c''] (batchOptions 2 1)
      (20, createPlaywrightScraperAdapter) =
     Some (\<lparr>results = [], failed = [], totalDuration = 0\<rparr>, [], 20, createPlaywrightScraperAdapter) \<and>
   aborted (exampleEnv {} (Some 20)) (fst (582, createPlaywrightScraperAdapter, [], [], [])) \<and>
   scrapeMany_loop (exampleEnv {} (Some 20)) noOptions 2 1 1000 [''a'', ''b'', ''c''] 2
      (582, createPlaywrightScraperAdapter, [], [], []) =
     Some (582, createPlaywrightScraperAdapter, [], [], []) \<and>
   \<not> aborted (exampleEnv {} (Some 20)) 0 \<and>
   aborted (exampleEnv {} (Some 20)) 40 \<and>
   aborted (exampleEnv {} (Some 20)) 582 \<and>
   scrapeMany_loop (exampleEnv {} (Some 20)) noOptions 2 1 1000 [''a'', ''b'', ''c''] 0
      (0, createPlaywrightScraperAdapter, [], [], []) =
     Some (582, snd (scrapeMany_batch (exampleEnv {} (Some 20)) noOptions 1 1000 [''a'', ''b'']
                       (0, createPlaywrightScraperAdapter, [], [], []))) \<and>
   (0::int) \<le> 1 \<and>
   uncached noOptions ''a'' createPlaywrightScraperAdapter \<and>
   uncached noOptions ''b'' createPlaywrightScraperAdapter \<and>
   (\<forall>u so w. \<not> isl (fst (browse (exampleEnv {} (Some 20)) u so w))) \<and>
   (\<forall>w. fst (teardown (exampleEnv {} (Some 20)) w) = None) \<and>
   (\<exists>w' a' res' att'.
      scrapeMany_batch (exampleEnv {} (Some 20)) noOptions 1 1000 [''a'', ''b'']
          (0, createPlaywrightScraperAdapter, [], [], []) = (w', a', res', [], att') \<and>
      backendCalls a' = [''a'', ''b''] \<and>
      (\<exists>response. (''a'', Inr response) \<in> set att' \<and> map_of res' ''a'' = Some (result response)) \<and>
      (\<exists>response. (''b'', Inr response) \<in> set att' \<and> map_of res' ''b'' = Some (result response))) \<and>
   map_option (\<lambda>(r, att, w, a). (map fst (results r), failed r, map fst att, backendCalls a, w))
     (scrapeMany (exampleEnv {} (Some 20)) [''a'', ''b'', ''c''] (batchOptions 2 1)
        (0, createPlaywrightScraperAdapter)) =
     Some ([''a'', ''b''], [], [''a'', ''b''], [''a'', ''b''], 582)"
proof -
  have h1: "aborted (exampleEnv {} (Some 20)) 20" by (simp add: exampleEnv_def)
  have h2: "\<not> aborted (exampleEnv {} (Some 20)) 0" by (simp add: exampleEnv_def)
  have h3: "aborted (exampleEnv {} (Some 20)) 40" by (simp add: exampleEnv_def)
  have h4: "\<forall>u \<in> set [''a'', ''b'']. uncached noOptions u createPlaywrightScraperAdapter"
    by (simp add: uncached_def createPlaywrightScraperAdapter_def newPlaywrightScraperAdapter_def)
  have h5: "\<forall>u so w. \<not> isl (fst (browse (exampleEnv {} (Some 20)) u so w))"
    by (simp add: exampleEnv_def)
  have h6: "\<forall>w. fst (teardown (exampleEnv {} (Some 20)) w) = None" by (simp add: exampleEnv_def)
  have h7: "backendCalls createPlaywrightScraperAdapter = []"
    by (simp add: createPlaywrightScraperAdapter_def newPlaywrightScraperAdapter_def)
  have h8: "aborted (exampleEnv {} (Some 20)) 582" by (simp add: exampleEnv_def)
  have window: "js_slice [''a'', ''b'', ''c''] 0 (0 + 2) = [''a'', ''b'']"
    by (simp add: js_slice_def)
  have ended: "fst (scrapeMany_batch (exampleEnv {} (Some 20)) noOptions 1 1000 [''a'', ''b'']
                       (0, createPlaywrightScraperAdapter, [], [], [])) = 82"
    by code_simp
  have pause: "sleep (exampleEnv {} (Some 20)) (getRandomDelay (exampleEnv {} (Some 20)) 500 1500 82) 82
      = 582" by (simp add: exampleEnv_def)
  have run: "map_option (\<lambda>(r, att, w, a). (map fst (results r), failed r, map fst att, backendCalls a, w))
     (scrapeMany (exampleEnv {} (Some 20)) [''a'', ''b'', ''c''] (batchOptions 2 1)
        (0, createPlaywrightScraperAdapter)) =
     Some ([''a'', ''b''], [], [''a'', ''b''], [''a'', ''b''], 582)"
    by code_simp
  from scrapeMany_cancellation[of "exampleEnv {} (Some 20)" 20 "[''a'', ''b'', ''c'']" "batchOptions 2 1"
      createPlaywrightScraperAdapter "(582, createPlaywrightScraperAdapter, [], [], [])"
      noOptions 2 1 1000 2 0 "(0, createPlaywrightScraperAdapter, [], [], [])"
      "[''a'', ''b'']" 0 createPlaywrightScraperAdapter "[]" "[]" "[]"]
  show ?thesis using h1 h2 h3 h4 h5 h6 h7 h8 window ended pause run
    by (auto simp: split_beta Let_def)
qed

section \<open>Properties of \<open>scrapeWithRetry\<close>\<close>







section \<open>Properties of the wire-protocol client\<close>

lemma has_id: "map_of props k = Some v \<Longrightarrow> (k \<in> fst ` set props) = True"
  by (auto dest: map_of_SomeD intro: rev_image_eqI)

text \<open>
  C4. In every state of the page, a response message (a JSON object with an \<open>id\<close>)
  whose id matches no entry of \<open>pendingCommands\<close> is dropped: \<open>handleMessage\<close> raises
  nothing and leaves the whole state, the table included, as it was.
\<close>

theorem handleMessage_unmatched_id:
  assumes "JSON_parse d = Some (JObj props)"
    and "map_of props ''id'' = Some idv"
    and "\<forall>n. idv = JNum n \<longrightarrow> map_of (pendingCommands p) n = None"
  shows "handleMessage JSON_parse d p = (None, p)"
proof -
  have "lookupPending (Some idv) p = None"
    using assms(3) by (cases idv) (simp_all add: lookupPending_def)
  then show ?thesis
    using assms(1,2) by (simp add: handleMessage_def has_id)
qed

theorem handleMessage_unmatched_id_witness:
  "exampleParse ''{id:7,result:{}}'' = Some (JObj [(''id'', JNum 7), (''result'', JObj [])]) \<and>
   map_of [(''id'', JNum 7), (''result'', JObj [])] ''id'' = Some (JNum 7) \<and>
   map_of (pendingCommands (snd (send (\<lambda>f. None) ''Page.enable'' None examplePage))) 7 = None \<and>
   handleMessage exampleParse ''{id:7,result:{}}'' (snd (send (\<lambda>f. None) ''Page.enable'' None examplePage))
     = (None, snd (send (\<lambda>f. None) ''Page.enable'' None examplePage)) \<and>
   pendingCommands (snd (send (\<lambda>f. None) ''Page.enable'' None examplePage)) = [(1, Continuation 1)]"
proof -
  have h1: "exampleParse ''{id:7,result:{}}'' = Some (JObj [(''id'', JNum 7), (''result'', JObj [])])"
    by (simp add: exampleParse_def)
  have h2: "map_of [(''id'', JNum 7), (''result'', JObj [])] ''id'' = Some (JNum 7)" by simp
  have p: "pendingCommands (snd (send (\<lambda>f. None) ''Page.enable'' None examplePage)) = [(1, Continuation 1)]"
    by (simp add: send_def examplePage_def Let_def)
  have h3: "\<forall>n. JNum 7 = JNum n \<longrightarrow>
      map_of (pendingCommands (snd (send (\<lambda>f. None) ''Page.enable'' None examplePage))) n = None"
    by (simp add: p)
  from handleMessage_unmatched_id[where JSON_parse = exampleParse and d = "''{id:7,result:{}}''",
      OF h1 h2 h3] h1 h2 p
  show ?thesis by simp
qed

text \<open>
  C5. A pending entry is created by \<open>send\<close> on a connected page, under the fresh id
  \<open>messageId + 1\<close> (a \<open>send\<close> on a page without a socket creates none), and it is
  destroyed when the response with its id arrives, which settles its promise.
  \<open>close()\<close> drops the socket and leaves \<open>pendingCommands\<close> and the promises as they
  are.
\<close>

theorem CDPPage_pending_lifecycle:
  "(ws p \<noteq> None \<and> (\<forall>k \<in> fst ` set (pendingCommands p). k \<le> messageId p) \<longrightarrow>
      (\<exists>p'. send wsSend method params p = (Inr (messageId p + 1), p') \<and>
            messageId p' = messageId p + 1 \<and>
            pendingCommands p' = pendingCommands p @ [(messageId p + 1, Continuation (messageId p + 1))] \<and>
            (\<forall>k \<in> fst ` set (pendingCommands p'). k \<le> messageId p'))) \<and>
   (ws p = None \<longrightarrow> send wsSend method params p = (Inl (Error ''Page not connected''), p)) \<and>
   (JSON_parse d = Some (JObj props) \<and> map_of props ''id'' = Some (JNum n) \<and>
    map_of (pendingCommands p) n = Some k \<longrightarrow>
      (\<exists>p'. handleMessage JSON_parse d p = (None, p') \<and>
            pendingCommands p' = AList.delete n (pendingCommands p) \<and>
            (k = Continuation n \<and> n \<notin> fst ` set (settlements p) \<longrightarrow>
               n \<in> fst ` set (settlements p')))) \<and>
   (pendingCommands (snd (close closePage p)) = pendingCommands p \<and>
    settlements (snd (close closePage p)) = settlements p \<and>
    ws (snd (close closePage p)) = None)"
proof (intro conjI impI)
  assume h: "ws p \<noteq> None \<and> (\<forall>k \<in> fst ` set (pendingCommands p). k \<le> messageId p)"
  then have new: "messageId p + 1 \<notin> fst ` set (pendingCommands p)" by force
  have upd: "AList.update (messageId p + 1) (Continuation (messageId p + 1)) (pendingCommands p)
      = pendingCommands p @ [(messageId p + 1, Continuation (messageId p + 1))]"
    using new by (rule update_new_key)
  show "\<exists>p'. send wsSend method params p = (Inr (messageId p + 1), p') \<and>
            messageId p' = messageId p + 1 \<and>
            pendingCommands p' = pendingCommands p @ [(messageId p + 1, Continuation (messageId p + 1))] \<and>
            (\<forall>k \<in> fst ` set (pendingCommands p'). k \<le> messageId p')"
    using h upd
    by (cases "wsSend (messageId p + 1, method, params)")
       (force simp: send_def Let_def settle_def)+
next
  assume "ws p = None"
  then show "send wsSend method params p = (Inl (Error ''Page not connected''), p)"
    by (simp add: send_def)
next
  assume h: "JSON_parse d = Some (JObj props) \<and> map_of props ''id'' = Some (JNum n) \<and>
    map_of (pendingCommands p) n = Some k"
  then have lk: "lookupPending (getProperty ''id'' (JObj props)) p = Some (n, k)"
    by (simp add: lookupPending_def)
  show "\<exists>p'. handleMessage JSON_parse d p = (None, p') \<and>
            pendingCommands p' = AList.delete n (pendingCommands p) \<and>
            (k = Continuation n \<and> n \<notin> fst ` set (settlements p) \<longrightarrow>
               n \<in> fst ` set (settlements p'))"
    using h lk
    by (cases k) (auto simp: handleMessage_def has_id Let_def settle_def)
next
  show "pendingCommands (snd (close closePage p)) = pendingCommands p"
    by (simp add: close_def)
  show "settlements (snd (close closePage p)) = settlements p"
    by (simp add: close_def)
  show "ws (snd (close closePage p)) = None"
    by (simp add: close_def)
qed

theorem CDPPage_pending_lifecycle_witness:
  "ws examplePage \<noteq> None \<and>
   send (\<lambda>f. None) ''Page.enable'' None examplePage =
     (Inr 1, examplePage\<lparr>messageId := 1, pendingCommands := [(1, Continuation 1)],
                         sentFrames := [(1, ''Page.enable'', None)]\<rparr>) \<and>
   ws (examplePage\<lparr>ws := None\<rparr>) = None \<and>
   send (\<lambda>f. None) ''Page.enable'' None (examplePage\<lparr>ws := None\<rparr>) =
     (Inl (Error ''Page not connected''), examplePage\<lparr>ws := None\<rparr>) \<and>
   exampleParse ''{id:1,result:{}}'' = Some (JObj [(''id'', JNum 1), (''result'', JObj [])]) \<and>
   map_of (pendingCommands (examplePage\<lparr>messageId := 1, pendingCommands := [(1, Continuation 1)]\<rparr>)) 1
     = Some (Continuation 1) \<and>
   handleMessage exampleParse ''{id:1,result:{}}''
       (examplePage\<lparr>messageId := 1, pendingCommands := [(1, Continuation 1)]\<rparr>) =
     (None, examplePage\<lparr>messageId := 1, pendingCommands := [],
                        settlements := [(1, Resolved (Some (JObj [])))]\<rparr>) \<and>
   pendingCommands (snd (close None (examplePage\<lparr>messageId := 1, pendingCommands := [(1, Continuation 1)]\<rparr>)))
     = [(1, Continuation 1)]"
proof -
  have e: "exampleParse ''{id:1,result:{}}'' = Some (JObj [(''id'', JNum 1), (''result'', JObj [])])"
    by (simp add: exampleParse_def)
  have s: "send (\<lambda>f. None) ''Page.enable'' None examplePage =
     (Inr 1, examplePage\<lparr>messageId := 1, pendingCommands := [(1, Continuation 1)],
                         sentFrames := [(1, ''Page.enable'', None)]\<rparr>)"
    by (simp add: send_def examplePage_def Let_def)
  have h: "handleMessage exampleParse ''{id:1,result:{}}''
       (examplePage\<lparr>messageId := 1, pendingCommands := [(1, Continuation 1)]\<rparr>) =
     (None, examplePage\<lparr>messageId := 1, pendingCommands := [],
                        settlements := [(1, Resolved (Some (JObj [])))]\<rparr>)"
    by (simp add: handleMessage_def e lookupPending_def settle_def examplePage_def Let_def)
  from CDPPage_pending_lifecycle[of "examplePage\<lparr>messageId := 1, pendingCommands := [(1, Continuation 1)]\<rparr>"
      "\<lambda>f. None" "''Page.enable''" None exampleParse "''{id:1,result:{}}''"
      "[(''id'', JNum 1), (''result'', JObj [])]" 1 "Continuation 1" None]
  show ?thesis using e s h by (simp add: examplePage_def send_def)
qed

text \<open>After \<open>send\<close> and then \<open>close()\<close>, which completes without an exception, the entry
  of the command is still in the table and its promise is not settled.\<close>

theorem close_leaves_pending_counterexample:
  "fst (send (\<lambda>f. None) ''Page.navigate'' None examplePage) = Inr 1 \<and>
   fst (close None (snd (send (\<lambda>f. None) ''Page.navigate'' None examplePage))) = None \<and>
   ws (snd (close None (snd (send (\<lambda>f. None) ''Page.navigate'' None examplePage)))) = None \<and>
   pendingCommands (snd (close None (snd (send (\<lambda>f. None) ''Page.navigate'' None examplePage))))
     = [(1, Continuation 1)] \<and>
   settlements (snd (close None (snd (send (\<lambda>f. None) ''Page.navigate'' None examplePage)))) = []"
  by (simp add: send_def close_def examplePage_def Let_def)

section \<open>Properties of the session manager\<close>

text \<open>A call that finds a session under the identity returns it, or throws what
  \<open>context.newPage()\<close> throws; a call that returns a Session leaves it registered.\<close>

lemma begin_existing:
  "map_of (sessions m) pid = Some r \<Longrightarrow>
   \<exists>m1. sessions m1 = sessions m \<and>
     (getOrCreateSession_begin env pid options w m = (Finished r, m1) \<or>
      getOrCreateSession_begin env pid options w m = (Suspended (AwaitNewPage r), m1))"
  by (simp add: getOrCreateSession_begin_def reuseExisting_def Let_def)

lemma resume_new_page:
  "\<exists>out w' m'. getOrCreateSession_resume env pid (AwaitNewPage r) w m = (out, w', m') \<and>
     (out = Inr r \<or> isl out) \<and> sessions m' = sessions m"
  by (cases "newPage env (browserContext (store m r)) w")
     (auto simp: getOrCreateSession_resume_def split: sum.splits)

lemma reuse_observes:
  assumes "map_of (sessions m) pid = Some r"
  shows "\<exists>out w' m'. getOrCreateSession env pid options (w, m) = (out, w', m') \<and>
           (out = Inr r \<or> isl out) \<and> sessions m' = sessions m"
proof -
  from begin_existing[OF assms, of env options w]
  obtain m1 where s1: "sessions m1 = sessions m"
    and b: "getOrCreateSession_begin env pid options w m = (Finished r, m1) \<or>
      getOrCreateSession_begin env pid options w m = (Suspended (AwaitNewPage r), m1)"
    by (elim exE conjE) (rule that)
  from b show ?thesis
  proof
    assume "getOrCreateSession_begin env pid options w m = (Finished r, m1)"
    then show ?thesis using s1 by (simp add: getOrCreateSession_def)
  next
    assume susp: "getOrCreateSession_begin env pid options w m = (Suspended (AwaitNewPage r), m1)"
    from resume_new_page[of env pid r w m1]
    obtain out w' m' where "getOrCreateSession_resume env pid (AwaitNewPage r) w m1 = (out, w', m')"
      and "out = Inr r \<or> isl out" and "sessions m' = sessions m1"
      by (elim exE conjE) (rule that)
    then show ?thesis using s1 by (simp add: getOrCreateSession_def susp)
  qed
qed

lemma resume_registers:
  "getOrCreateSession_resume env pid k w m = (Inr r, w', m') \<Longrightarrow>
   (\<exists>e. k = AwaitNewPage e \<and> r = e \<and> sessions m' = sessions m) \<or>
   map_of (sessions m') pid = Some r"
  by (cases k)
     (auto simp: getOrCreateSession_resume_def registerSession_def firstPageOrNew_def tryCursor_def
         AList.update_conv'
       split: prod.splits sum.splits option.splits list.splits)

lemma begin_absent:
  assumes "map_of (sessions m) pid = None"
  shows "\<exists>k. getOrCreateSession_begin env pid options w m = (Suspended k, m) \<and>
           (\<forall>e. k \<noteq> AwaitNewPage e)"
proof -
  have none: "reuseExisting env pid w m = None"
    using assms by (simp add: reuseExisting_def)
  show ?thesis
  proof (cases "Option.bind options cdpUrl")
    case None
    then show ?thesis by (simp add: getOrCreateSession_begin_def none)
  next
    case (Some cdp)
    then show ?thesis
      by (cases cdp) (simp_all add: getOrCreateSession_begin_def connectViaCDP_begin_def none)
  qed
qed

lemma call_registers:
  assumes "getOrCreateSession env pid options (w, m) = (Inr r, w', m')"
  shows "map_of (sessions m') pid = Some r"
proof (cases "map_of (sessions m) pid")
  case (Some e)
  from reuse_observes[OF Some, of env options w] assms
  show ?thesis using Some by auto
next
  case None
  from begin_absent[OF None, of env options w]
  obtain k where b: "getOrCreateSession_begin env pid options w m = (Suspended k, m)"
    and nk: "\<forall>e. k \<noteq> AwaitNewPage e"
    by (elim exE conjE) (rule that)
  with assms have "getOrCreateSession_resume env pid k w m = (Inr r, w', m')"
    by (simp add: getOrCreateSession_def)
  from resume_registers[OF this] nk show ?thesis by auto
qed

text \<open>Found with its page open, the Session is returned at once, the same object, only
  its \<open>lastActivity\<close> touched; found with its page closed, it is returned with a new
  page.\<close>

lemma reuse_open_session:
  assumes "map_of (sessions m) pid = Some r" and "\<not> isClosed env (page (store m r)) w"
  shows "getOrCreateSession env pid options (w, m) =
     (Inr r, w, m\<lparr>store := (store m)(r := (store m r)\<lparr>lastActivity := dateNow env w\<rparr>)\<rparr>)"
  using assms
  by (simp add: getOrCreateSession_def getOrCreateSession_begin_def reuseExisting_def Let_def)

lemma reuse_closed_page:
  assumes "map_of (sessions m) pid = Some r" and "isClosed env (page (store m r)) w"
    and "newPage env (browserContext (store m r)) w = (Inr pg, w1)"
  shows "getOrCreateSession env pid options (w, m) =
     (Inr r, w1,
      m\<lparr>store := (store m)(r := (store m r)\<lparr>lastActivity := dateNow env w, page := pg\<rparr>)\<rparr>)"
  using assms
  by (simp add: getOrCreateSession_def getOrCreateSession_begin_def reuseExisting_def Let_def
        getOrCreateSession_resume_def)

text \<open>
  C6. \<open>getOrCreateSession\<close> means to get or create: it looks the identity up, returns
  the Session it finds (the lemmas above: the very same object, with a fresh page when
  the old one had been closed), and otherwise creates one and registers it. But the
  look-up is made before the first \<open>await\<close> of the creation and the registration after
  the last one, and nothing keeps a second caller out in between. Two calls for one
  identity that overlap there both find no Session, each creates one of its own, they
  return two distinct Sessions, and the map is left with the second one only, the
  first caller holding a Session the manager no longer knows. So it is when the
  browser is launched, and so it is when the calls attach to a running browser.
\<close>

theorem concurrent_getOrCreateSession_two_sessions:
  "(case getOrCreateSession_begin exampleBrowser ''alice'' None 0 newWebActionManager of
      (callA, mA) \<Rightarrow>
   (case getOrCreateSession_begin exampleBrowser ''alice'' None 0 mA of
      (callB, mB) \<Rightarrow>
   (case getOrCreateSession_resume exampleBrowser ''alice''
           (AwaitLaunch ''/home/user/.onecrawl/profiles/alice/browser-data'' True) 0 mB of
      (first, w1, m1) \<Rightarrow>
   (case getOrCreateSession_resume exampleBrowser ''alice''
           (AwaitLaunch ''/home/user/.onecrawl/profiles/alice/browser-data'' True) w1 m1 of
      (second, w2, m2) \<Rightarrow>
        callA = Suspended (AwaitLaunch ''/home/user/.onecrawl/profiles/alice/browser-data'' True) \<and>
        callB = Suspended (AwaitLaunch ''/home/user/.onecrawl/profiles/alice/browser-data'' True) \<and>
        first = Inr 0 \<and> second = Inr 1 \<and>
        browserContext (store m2 0) = 0 \<and> browserContext (store m2 1) = 2 \<and>
        sessions m2 = [(''alice'', 1)])))) \<and>
   (case getOrCreateSession_begin exampleBrowser ''alice''
           (Some \<lparr>headless = None, cdpUrl = Some ''ws://127.0.0.1:9222/devtools/browser/1''\<rparr>)
           0 newWebActionManager of
      (callA, mA) \<Rightarrow>
   (case getOrCreateSession_begin exampleBrowser ''alice''
           (Some \<lparr>headless = None, cdpUrl = Some ''ws://127.0.0.1:9222/devtools/browser/1''\<rparr>)
           0 mA of
      (callB, mB) \<Rightarrow>
   (case getOrCreateSession_resume exampleBrowser ''alice''
           (AwaitConnect ''ws://127.0.0.1:9222/devtools/browser/1'') 0 mB of
      (first, w1, m1) \<Rightarrow>
   (case getOrCreateSession_resume exampleBrowser ''alice''
           (AwaitConnect ''ws://127.0.0.1:9222/devtools/browser/1'') w1 m1 of
      (second, w2, m2) \<Rightarrow>
        callA = Suspended (AwaitConnect ''ws://127.0.0.1:9222/devtools/browser/1'') \<and>
        callB = Suspended (AwaitConnect ''ws://127.0.0.1:9222/devtools/browser/1'') \<and>
        first = Inr 0 \<and> second = Inr 1 \<and>
        cdpBrowser (store m2 0) = Some 0 \<and> cdpBrowser (store m2 1) = Some 3 \<and>
        sessions m2 = [(''alice'', 1)]))))"
  by code_simp

end
